theory Spec2Isabelle
  imports Main "HOL-Library.Word" "HOL-Library.Signed_Division"
begin

section \<open>The validator of package plan (plan/validator.go)\<close>

text \<open>
  A shallow embedding of \<^verbatim>\<open>plan/validator.go\<close>: the visitor \<^verbatim>\<open>validator\<close> with its
  \<^verbatim>\<open>Enter\<close> and \<^verbatim>\<open>Leave\<close> methods, the checkers they call, and \<^verbatim>\<open>Validate\<close>.
  The Go code mutates the validator and the tree through pointers; here every function
  takes the validator (and the node) and returns the new one. A run-time panic of the Go
  code is the left summand of the result.
\<close>

subsection \<open>Panics and errors\<close>

datatype panic = IndexOutOfRange | NilPointerDereference | DivideByZero

text \<open>
  Modelled from the spec: \<^verbatim>\<open>model.CIStr\<close> (package model is not among the sources), a name
  as written (\<^verbatim>\<open>O\<close>, which \<^verbatim>\<open>String()\<close> returns) and in lower case (\<^verbatim>\<open>L\<close>). Record fields
  share one name space in Isabelle, so every field carries the initials of its type.
\<close>

record cistr =
  str_O :: string
  str_L :: string

text \<open>
  Modelled from the spec: \<^verbatim>\<open>ast.ConstraintType\<close> (package ast is not among the sources), the
  kind of a constraint: primary key, the key/index kinds, the unique kinds, and others.
\<close>

datatype constraint_type =
    ConstraintNoConstraint | ConstraintPrimaryKey | ConstraintKey | ConstraintIndex
  | ConstraintUniq | ConstraintUniqKey | ConstraintUniqIndex | ConstraintForeignKey
  | ConstraintFulltext

text \<open>
  The error values the validator stores in \<^verbatim>\<open>v.err\<close>, one constructor for each place
  that makes one, with the arguments of its message:
  \<^item> \<open>ErrInvalidGroupFuncUse\<close>, \<open>ErrAlterAutoID\<close>: the package's own sentinels;
  \<^item> \<open>ErrSyntax m\<close>: \<^verbatim>\<open>parser.ErrSyntax.Gen(m)\<close>;
  \<^item> \<open>ErrWrongTableName n\<close>: \<^verbatim>\<open>ddl.ErrWrongTableName.GenByArgs(n)\<close>;
  \<^item> \<open>ErrMultiplePriKey\<close>: \<^verbatim>\<open>infoschema.ErrMultiplePriKey\<close>;
  \<^item> \<open>ErrColumnExists n\<close>: \<^verbatim>\<open>infoschema.ErrColumnExists.GenByArgs(n)\<close>;
  \<^item> \<open>ErrTooBigDisplayWidth c m\<close>, \<open>ErrTooBigFieldLength c m\<close>, \<open>ErrWrongFieldSpec c\<close>,
    \<open>ErrTooBigSet c\<close>: the errors of package types, for column \<open>c\<close> and maximum \<open>m\<close>;
  \<^item> \<open>ErrUnknownCharset cs\<close>: the error \<^verbatim>\<open>charset.GetCharsetDesc(cs)\<close> returns;
  \<^item> \<open>ErrInvalidDefaultValue c\<close>: "Invalid default value for 'c'";
  \<^item> \<open>ErrAutoIncrementKey\<close>: "Incorrect table definition; there can be only one auto
    column and it must be defined as a key";
  \<^item> \<open>ErrIncorrectColumnSpecifier c\<close>: "Incorrect column specifier for column 'c'";
  \<^item> \<open>ErrDashbaseConnRequired\<close>: "Incorrect table definition; DASHBASE_CONN option is
    required for Dashbase engine tables";
  \<^item> \<open>ErrDashbaseConnInvalid\<close>: "Incorrect table definition; DASHBASE_CONN is not valid";
  \<^item> \<open>ErrDashbasePKDatetime\<close>: "... Dashbase table primary key column must be datetime
    type";
  \<^item> \<open>ErrDashbasePKOneColumn\<close>: "... Dashbase table primary key must contain only one
    column";
  \<^item> \<open>ErrDashbaseConstraint tp\<close>: "... Constraint tp not supported in Dashbase table";
  \<^item> \<open>ErrDashbaseIndexOneColumn\<close>: "... Dashbase table index must contain only one
    column";
  \<^item> \<open>ErrDashbaseIndexText\<close>: "... Dashbase table index column must be text type";
  \<^item> \<open>ErrDashbasePKRequired\<close>: "... Dashbase table should have a primary key".

  \<^verbatim>\<open>errors.Trace\<close> only adds a stack position to an error and is left out.
\<close>

datatype error =
    ErrInvalidGroupFuncUse
  | ErrAlterAutoID
  | ErrSyntax string
  | ErrWrongTableName string
  | ErrMultiplePriKey
  | ErrColumnExists cistr
  | ErrTooBigDisplayWidth string int
  | ErrTooBigFieldLength string int
  | ErrWrongFieldSpec string
  | ErrTooBigSet string
  | ErrUnknownCharset string
  | ErrInvalidDefaultValue string
  | ErrAutoIncrementKey
  | ErrIncorrectColumnSpecifier string
  | ErrDashbaseConnRequired
  | ErrDashbaseConnInvalid
  | ErrDashbasePKDatetime
  | ErrDashbasePKOneColumn
  | ErrDashbaseConstraint constraint_type
  | ErrDashbaseIndexOneColumn
  | ErrDashbaseIndexText
  | ErrDashbasePKRequired

text \<open>
  The outcome of a loop of the Go code whose body may panic or may store an error and
  return from the enclosing method: \<open>Return e\<close> is \<^verbatim>\<open>v.err = e; return\<close>, \<open>Next s\<close> is the
  loop running to its end with its local variables \<open>s\<close>.
\<close>

datatype 'a flow = Panic panic | Return error | Next 'a

subsection \<open>The parts of the syntax tree the validator reads\<close>

text \<open>
  Package ast, package mysql and package types are not among the sources; their types
  are declared here, after the data model of the spec, with the fields \<^verbatim>\<open>validator.go\<close>
  reads. A pointer the code compares with nil, or that is nil for some kinds of its owner,
  is an \<open>option\<close>, and dereferencing \<open>None\<close> panics; every other pointer is taken to
  point to its target.
\<close>

text \<open>
  Modelled from the spec: the column types of package mysql (the byte constants
  \<^verbatim>\<open>mysql.TypeTiny\<close>, ...), the "kind" of the spec's type descriptor.
\<close>

datatype mysql_type =
    TypeDecimal | TypeTiny | TypeShort | TypeLong | TypeFloat | TypeDouble | TypeNull
  | TypeTimestamp | TypeLonglong | TypeInt24 | TypeDate | TypeDuration | TypeDatetime
  | TypeYear | TypeNewDate | TypeVarchar | TypeBit | TypeJSON | TypeNewDecimal | TypeEnum
  | TypeSet | TypeTinyBlob | TypeMediumBlob | TypeLongBlob | TypeBlob | TypeVarString
  | TypeString | TypeGeometry

text \<open>
  Modelled from the spec: \<^verbatim>\<open>types.FieldType\<close>, the type descriptor of a column: kind,
  declared length, charset, and the members of a SET or ENUM.
\<close>

record field_type =
  ft_Tp :: mysql_type
  ft_Flen :: int
  ft_Charset :: string
  ft_Elems :: "string list"

text \<open>
  Modelled from the spec: \<^verbatim>\<open>types.Datum\<close>, by kind. The validator tells apart the null
  datum, an unsigned 64-bit value, and everything else; two of the other kinds stand for
  all of them.
\<close>

datatype datum = KindNull | KindUint64 "64 word" | KindInt64 "64 word" | KindString string

text \<open>
  Modelled from the spec: \<^verbatim>\<open>ast.ColumnOptionType\<close>, the kind of a column option.
\<close>

datatype column_option_type =
    ColumnOptionNoOption | ColumnOptionPrimaryKey | ColumnOptionNotNull
  | ColumnOptionAutoIncrement | ColumnOptionDefaultValue | ColumnOptionUniqKey
  | ColumnOptionNull | ColumnOptionOnUpdate | ColumnOptionFulltext | ColumnOptionComment

text \<open>
  Modelled from the spec: \<^verbatim>\<open>ast.ColumnOption\<close>. \<open>co_Expr\<close> is the option's expression, by
  the datum it carries (\<^verbatim>\<open>op.Expr.GetDatum()\<close>); it is nil for an option that has no
  expression.
\<close>

record column_option =
  co_Tp :: column_option_type
  co_Expr :: "datum option"

text \<open>
  Modelled from the spec: \<^verbatim>\<open>ast.ColumnName\<close> and \<^verbatim>\<open>ast.ColumnDef\<close>, a column definition:
  name, type descriptor (nil when the column has none) and the options in their order.
\<close>

record column_name =
  cn_Name :: cistr

record column_def =
  cd_Name :: column_name
  cd_Tp :: "field_type option"
  cd_Options :: "column_option list"

text \<open>
  Modelled from the spec: \<^verbatim>\<open>ast.IndexColName\<close> and \<^verbatim>\<open>ast.Constraint\<close>, a constraint: a
  kind and the columns it names, in their order.
\<close>

record index_col_name =
  ic_Column :: column_name

record constraint =
  cs_Tp :: constraint_type
  cs_Keys :: "index_col_name list"

text \<open>
  Modelled from the spec: \<^verbatim>\<open>ast.TableOptionType\<close> and \<^verbatim>\<open>ast.TableOption\<close>, a table option:
  a kind (engine, connection string, auto-increment seed, ...) and its string value.
\<close>

datatype table_option_type =
    TableOptionNone | TableOptionEngine | TableOptionCharset | TableOptionCollate
  | TableOptionAutoIncrement | TableOptionComment | TableOptionDashbaseConnection

record table_option =
  to_Tp :: table_option_type
  to_StrValue :: string

text \<open>
  Modelled from the spec: \<^verbatim>\<open>ast.TableName\<close> and the three statements with an entry-time
  check, \<^verbatim>\<open>ast.CreateTableStmt\<close> (its table is nil when the statement names none),
  \<^verbatim>\<open>ast.CreateIndexStmt\<close> and \<^verbatim>\<open>ast.AlterTableStmt\<close> with its specs (\<^verbatim>\<open>ast.AlterTableSpec\<close>,
  whose new column and constraint are nil when the spec has none).
\<close>

record table_name =
  tn_Name :: cistr

record create_table_stmt =
  ct_Table :: "table_name option"
  ct_Cols :: "column_def list"
  ct_Constraints :: "constraint list"
  ct_Options :: "table_option list"

record create_index_stmt =
  cx_IndexColNames :: "index_col_name list"

datatype alter_table_type =
    AlterTableOption | AlterTableAddColumn | AlterTableAddConstraint | AlterTableDropColumn
  | AlterTableOther

record alter_table_spec =
  as_Tp :: alter_table_type
  as_NewColumn :: "column_def option"
  as_Constraint :: "constraint option"
  as_Options :: "table_option list"

record alter_table_stmt =
  at_Specs :: "alter_table_spec list"

text \<open>
  Modelled from the spec: \<^verbatim>\<open>ast.Node\<close>, the tree. The validator dispatches on seven
  kinds; every other expression kind is
  \<open>OtherExpr\<close> and every other statement or clause is \<open>OtherNode\<close>, each with the children
  its \<^verbatim>\<open>Accept\<close> visits. An expression node carries a datum. The parts of a CREATE TABLE,
  CREATE INDEX or ALTER TABLE statement (names, column definitions, options, constraints)
  are nodes of kinds on which \<^verbatim>\<open>Enter\<close> and \<^verbatim>\<open>Leave\<close> do nothing, so the statement is
  kept as data and has no children here.
\<close>

datatype node =
    AggregateFuncExpr datum "node list"
  | ParamMarkerExpr datum
  | ValueExpr datum
  | OtherExpr datum "node list"
  | Limit "node option" "node option"
  | CreateTableStmt create_table_stmt
  | CreateIndexStmt create_index_stmt
  | AlterTableStmt alter_table_stmt
  | OtherNode "node list"

subsection \<open>What the validator uses of other packages\<close>

text \<open>
  The collaborators and constants of packages that are not among the sources, as
  parameters: \<^verbatim>\<open>strings.EqualFold\<close>, \<^verbatim>\<open>charset.GetCharsetDesc\<close> (\<open>None\<close> when it returns an
  error, else the descriptor's \<^verbatim>\<open>Maxlen\<close>), \<^verbatim>\<open>dashbase.ParseConnectionOption\<close> (its
  success flag), and the constants of packages types and mysql.
\<close>

record env =
  EqualFold :: "string \<Rightarrow> string \<Rightarrow> bool"
  GetCharsetDesc :: "string \<Rightarrow> int option"
  ParseConnectionOption :: "string \<Rightarrow> bool"
  UnspecifiedLength :: int
  MaxFieldCharLength :: int
  MaxFieldVarCharLength :: int
  PrecisionForDouble :: int
  MaxTypeSetMembers :: int
  DefaultCharset :: string

definition MaxUint32 :: int where
  "MaxUint32 = 4294967295"

definition MaxUint64 :: "64 word" where
  "MaxUint64 = 18446744073709551615"

subsection \<open>The validator\<close>

record validator =
  err :: "error option"
  wildCardCount :: int
  inPrepare :: bool
  inAggregate :: bool

text \<open>
  The case lists of the \<^verbatim>\<open>switch\<close> statements over a constraint kind or a column type:
  the index and unique kinds (\<^verbatim>\<open>checkCreateTableGrammar\<close>, \<^verbatim>\<open>checkAlterTableGrammar\<close>), the
  kinds that make a column a key (\<^verbatim>\<open>isConstraintKeyTp\<close>), the unique kinds
  (\<^verbatim>\<open>checkDashbase\<close>), and the column types an auto-increment column may have
  (\<^verbatim>\<open>checkAutoIncrement\<close>).
\<close>

definition indexConstraintTp :: "constraint_type \<Rightarrow> bool" where
  "indexConstraintTp tp =
     (tp = ConstraintKey \<or> tp = ConstraintIndex \<or> tp = ConstraintUniq
      \<or> tp = ConstraintUniqKey \<or> tp = ConstraintUniqIndex)"

definition keyConstraintTp :: "constraint_type \<Rightarrow> bool" where
  "keyConstraintTp tp =
     (tp = ConstraintPrimaryKey \<or> tp = ConstraintKey \<or> tp = ConstraintIndex
      \<or> tp = ConstraintUniq \<or> tp = ConstraintUniqIndex \<or> tp = ConstraintUniqKey)"

definition uniqueConstraintTp :: "constraint_type \<Rightarrow> bool" where
  "uniqueConstraintTp tp =
     (tp = ConstraintUniq \<or> tp = ConstraintUniqKey \<or> tp = ConstraintUniqIndex)"

definition autoIncrementTp :: "mysql_type \<Rightarrow> bool" where
  "autoIncrementTp tp =
     (tp = TypeTiny \<or> tp = TypeShort \<or> tp = TypeLong \<or> tp = TypeFloat
      \<or> tp = TypeDouble \<or> tp = TypeLonglong \<or> tp = TypeInt24)"

text \<open>\<^verbatim>\<open>checkDuplicateColumnName\<close>: the first pair \<open>i < j\<close> with equal lower-case names.\<close>

fun checkDuplicateColumnName :: "index_col_name list \<Rightarrow> error option" where
  "checkDuplicateColumnName [] = None"
| "checkDuplicateColumnName (n1 # rest) =
     (case find (\<lambda>n2. str_L (cn_Name (ic_Column n1)) = str_L (cn_Name (ic_Column n2))) rest of
        Some n2 \<Rightarrow> Some (ErrColumnExists (cn_Name (ic_Column n2)))
      | None \<Rightarrow> checkDuplicateColumnName rest)"

text \<open>
  \<^verbatim>\<open>checkFieldLengthLimitation\<close>. \<^verbatim>\<open>maxFlen /= desc.Maxlen\<close> is Go's integer division: it
  truncates towards zero and panics on a zero divisor.
\<close>

definition checkFieldLengthLimitation :: "env \<Rightarrow> column_def \<Rightarrow> panic + error option" where
  "checkFieldLengthLimitation env colDef =
     (case cd_Tp colDef of
        None \<Rightarrow> Inr None
      | Some tp \<Rightarrow>
          if ft_Flen tp > MaxUint32
          then Inr (Some (ErrTooBigDisplayWidth (str_O (cn_Name (cd_Name colDef))) MaxUint32))
          else if ft_Tp tp = TypeString then
            (if ft_Flen tp \<noteq> UnspecifiedLength env \<and> ft_Flen tp > MaxFieldCharLength env
             then Inr (Some (ErrTooBigFieldLength (str_O (cn_Name (cd_Name colDef)))
                        (MaxFieldCharLength env)))
             else Inr None)
          else if ft_Tp tp = TypeVarchar then
            (let cs = (if length (ft_Charset tp) = 0 then DefaultCharset env
                       else ft_Charset tp)
             in case GetCharsetDesc env cs of
                  None \<Rightarrow> Inr (Some (ErrUnknownCharset cs))
                | Some maxlen \<Rightarrow>
                    if maxlen = 0 then Inl DivideByZero
                    else
                      (let maxFlen = MaxFieldVarCharLength env sdiv maxlen
                       in if ft_Flen tp \<noteq> UnspecifiedLength env \<and> ft_Flen tp > maxFlen
                          then Inr (Some (ErrTooBigFieldLength
                                 (str_O (cn_Name (cd_Name colDef))) maxFlen))
                          else Inr None))
          else if ft_Tp tp = TypeDouble then
            (if ft_Flen tp \<noteq> UnspecifiedLength env \<and> ft_Flen tp > PrecisionForDouble env
             then Inr (Some (ErrWrongFieldSpec (str_O (cn_Name (cd_Name colDef)))))
             else Inr None)
          else if ft_Tp tp = TypeSet then
            (if int (length (ft_Elems tp)) > MaxTypeSetMembers env
             then Inr (Some (ErrTooBigSet (str_O (cn_Name (cd_Name colDef)))))
             else Inr None)
          else Inr None)"

fun isPrimary :: "column_option list \<Rightarrow> int" where
  "isPrimary [] = 0"
| "isPrimary (op # ops) =
     (if co_Tp op = ColumnOptionPrimaryKey then 1 else isPrimary ops)"

text \<open>
  \<^verbatim>\<open>checkCreateTableGrammar\<close>: its loop over the columns and its loop over the
  constraints, each with \<^verbatim>\<open>countPrimaryKey\<close> as the loop variable.
\<close>

fun checkCreateTableGrammar_cols :: "env \<Rightarrow> column_def list \<Rightarrow> int \<Rightarrow> int flow" where
  "checkCreateTableGrammar_cols env [] countPrimaryKey = Next countPrimaryKey"
| "checkCreateTableGrammar_cols env (colDef # cols) countPrimaryKey =
     (case checkFieldLengthLimitation env colDef of
        Inl p \<Rightarrow> Panic p
      | Inr (Some e) \<Rightarrow> Return e
      | Inr None \<Rightarrow>
          (let n = countPrimaryKey + isPrimary (cd_Options colDef)
           in if n > 1 then Return ErrMultiplePriKey
              else checkCreateTableGrammar_cols env cols n))"

fun checkCreateTableGrammar_constraints :: "constraint list \<Rightarrow> int \<Rightarrow> int flow" where
  "checkCreateTableGrammar_constraints [] countPrimaryKey = Next countPrimaryKey"
| "checkCreateTableGrammar_constraints (c # cs) countPrimaryKey =
     (if indexConstraintTp (cs_Tp c)
      then (case checkDuplicateColumnName (cs_Keys c) of
              Some e \<Rightarrow> Return e
            | None \<Rightarrow> checkCreateTableGrammar_constraints cs countPrimaryKey)
      else if cs_Tp c = ConstraintPrimaryKey
      then (if countPrimaryKey > 0 then Return ErrMultiplePriKey
            else (case checkDuplicateColumnName (cs_Keys c) of
                    Some e \<Rightarrow> Return e
                  | None \<Rightarrow> checkCreateTableGrammar_constraints cs (countPrimaryKey + 1)))
      else checkCreateTableGrammar_constraints cs countPrimaryKey)"

definition checkCreateTableGrammar ::
  "env \<Rightarrow> validator \<Rightarrow> create_table_stmt \<Rightarrow> panic + validator" where
  "checkCreateTableGrammar env v stmt =
     (if (case ct_Table stmt of None \<Rightarrow> True | Some t \<Rightarrow> str_O (tn_Name t) = '''')
      then Inr (v\<lparr>err := Some (ErrWrongTableName '''')\<rparr>)
      else
        (case checkCreateTableGrammar_cols env (ct_Cols stmt) 0 of
           Panic p \<Rightarrow> Inl p
         | Return e \<Rightarrow> Inr (v\<lparr>err := Some e\<rparr>)
         | Next countPrimaryKey \<Rightarrow>
             (case checkCreateTableGrammar_constraints (ct_Constraints stmt) countPrimaryKey of
                Panic p \<Rightarrow> Inl p
              | Return e \<Rightarrow> Inr (v\<lparr>err := Some e\<rparr>)
              | Next _ \<Rightarrow> Inr v)))"

definition checkCreateIndexGrammar :: "validator \<Rightarrow> create_index_stmt \<Rightarrow> validator" where
  "checkCreateIndexGrammar v stmt =
     v\<lparr>err := checkDuplicateColumnName (cx_IndexColNames stmt)\<rparr>"

text \<open>\<^verbatim>\<open>checkAlterTableGrammar\<close>: the loop over the specs of the statement.\<close>

fun checkAlterTableGrammar_specs ::
  "env \<Rightarrow> validator \<Rightarrow> alter_table_spec list \<Rightarrow> panic + validator" where
  "checkAlterTableGrammar_specs env v [] = Inr v"
| "checkAlterTableGrammar_specs env v (spec # specs) =
     (case (case as_NewColumn spec of
              None \<Rightarrow> Inr None
            | Some colDef \<Rightarrow> checkFieldLengthLimitation env colDef) of
        Inl p \<Rightarrow> Inl p
      | Inr (Some e) \<Rightarrow> Inr (v\<lparr>err := Some e\<rparr>)
      | Inr None \<Rightarrow>
          if as_Tp spec = AlterTableAddConstraint then
            (case as_Constraint spec of
               None \<Rightarrow> Inl NilPointerDereference
             | Some c \<Rightarrow>
                 if indexConstraintTp (cs_Tp c)
                 then (let v1 = v\<lparr>err := checkDuplicateColumnName (cs_Keys c)\<rparr>
                       in if err v1 \<noteq> None then Inr v1
                          else checkAlterTableGrammar_specs env v1 specs)
                 else checkAlterTableGrammar_specs env v specs)
          else if as_Tp spec = AlterTableOption then
            (if list_ex (\<lambda>opt. to_Tp opt = TableOptionAutoIncrement) (as_Options spec)
             then Inr (v\<lparr>err := Some ErrAlterAutoID\<rparr>)
             else checkAlterTableGrammar_specs env v specs)
          else checkAlterTableGrammar_specs env v specs)"

definition checkAlterTableGrammar ::
  "env \<Rightarrow> validator \<Rightarrow> alter_table_stmt \<Rightarrow> panic + validator" where
  "checkAlterTableGrammar env v stmt = checkAlterTableGrammar_specs env v (at_Specs stmt)"

subsection \<open>The auto-increment checks\<close>

text \<open>
  \<^verbatim>\<open>checkAutoIncrementOp\<close>: its two loops over \<^verbatim>\<open>colDef.Options[num+1:]\<close>. The first asks
  for the datum of each later default-value option, which panics when the option has no
  expression.
\<close>

fun checkAutoIncrementOp_default :: "column_option list \<Rightarrow> panic + bool" where
  "checkAutoIncrementOp_default [] = Inr False"
| "checkAutoIncrementOp_default (op # ops) =
     (if co_Tp op = ColumnOptionDefaultValue
      then (case co_Expr op of
              None \<Rightarrow> Inl NilPointerDereference
            | Some d \<Rightarrow> if d \<noteq> KindNull then Inr True else checkAutoIncrementOp_default ops)
      else checkAutoIncrementOp_default ops)"

definition checkAutoIncrementOp :: "column_def \<Rightarrow> nat \<Rightarrow> panic + (bool \<times> error option)" where
  "checkAutoIncrementOp colDef num =
     (if num \<ge> length (cd_Options colDef) then Inl IndexOutOfRange
      else
        (let op = cd_Options colDef ! num;
             hasAutoIncrement = (co_Tp op = ColumnOptionAutoIncrement);
             later = drop (num + 1) (cd_Options colDef)
         in if hasAutoIncrement \<and> length (cd_Options colDef) = num + 1
            then Inr (hasAutoIncrement, None)
            else
              (case (if hasAutoIncrement then checkAutoIncrementOp_default later
                     else Inr False) of
                 Inl p \<Rightarrow> Inl p
               | Inr True \<Rightarrow>
                   Inr (hasAutoIncrement,
                        Some (ErrInvalidDefaultValue (str_O (cn_Name (cd_Name colDef)))))
               | Inr False \<Rightarrow>
                   if co_Tp op = ColumnOptionDefaultValue
                      \<and> length (cd_Options colDef) \<noteq> num + 1
                   then (case co_Expr op of
                           None \<Rightarrow> Inl NilPointerDereference
                         | Some d \<Rightarrow>
                             if d = KindNull then Inr (hasAutoIncrement, None)
                             else if list_ex (\<lambda>op'. co_Tp op' = ColumnOptionAutoIncrement) later
                             then Inr (hasAutoIncrement,
                                    Some (ErrInvalidDefaultValue
                                      (str_O (cn_Name (cd_Name colDef)))))
                             else Inr (hasAutoIncrement, None))
                   else Inr (hasAutoIncrement, None))))"

text \<open>
  \<^verbatim>\<open>isConstraintKeyTp\<close>. The guard \<^verbatim>\<open>if len(c.Keys) < 1 {}\<close> has an empty body, so
  \<^verbatim>\<open>c.Keys[0]\<close> is read whatever the length: on an empty key list it panics.
\<close>

fun isConstraintKeyTp :: "constraint list \<Rightarrow> column_def \<Rightarrow> panic + bool" where
  "isConstraintKeyTp [] colDef = Inr False"
| "isConstraintKeyTp (c # cs) colDef =
     (case cs_Keys c of
        [] \<Rightarrow> Inl IndexOutOfRange
      | k # _ \<Rightarrow>
          if str_L (cn_Name (cd_Name colDef)) \<noteq> str_L (cn_Name (ic_Column k))
          then isConstraintKeyTp cs colDef
          else if keyConstraintTp (cs_Tp c)
          then Inr True
          else isConstraintKeyTp cs colDef)"

text \<open>\<^verbatim>\<open>getStmtTableOption\<close>: the first option of the statement of the given kind.\<close>

definition getStmtTableOption ::
  "create_table_stmt \<Rightarrow> table_option_type \<Rightarrow> table_option option" where
  "getStmtTableOption stmt tp = find (\<lambda>opt. to_Tp opt = tp) (ct_Options stmt)"

definition isEngineDashbase :: "env \<Rightarrow> create_table_stmt \<Rightarrow> bool" where
  "isEngineDashbase env stmt =
     (case getStmtTableOption stmt TableOptionEngine of
        None \<Rightarrow> False
      | Some opt \<Rightarrow> EqualFold env (to_StrValue opt) ''Dashbase'')"

text \<open>
  \<^verbatim>\<open>checkAutoIncrement\<close>: the loop over the options of one column, with the index \<open>i\<close>
  and the variables \<^verbatim>\<open>hasAutoIncrement\<close> and \<^verbatim>\<open>isKey\<close>; the loop over the columns, with
  \<^verbatim>\<open>isKey\<close>, \<^verbatim>\<open>count\<close> and \<^verbatim>\<open>autoIncrementCol\<close>; and the method.
\<close>

fun checkAutoIncrement_options ::
  "column_def \<Rightarrow> nat \<Rightarrow> column_option list \<Rightarrow> bool \<times> bool \<Rightarrow> (bool \<times> bool) flow" where
  "checkAutoIncrement_options colDef i [] s = Next s"
| "checkAutoIncrement_options colDef i (op # ops) (hasAutoIncrement, isKey) =
     (case checkAutoIncrementOp colDef i of
        Inl p \<Rightarrow> Panic p
      | Inr (ok, Some e) \<Rightarrow> Return e
      | Inr (ok, None) \<Rightarrow>
          checkAutoIncrement_options colDef (Suc i) ops
            (hasAutoIncrement \<or> ok,
             isKey \<or> co_Tp op = ColumnOptionPrimaryKey \<or> co_Tp op = ColumnOptionUniqKey))"

fun checkAutoIncrement_cols ::
  "column_def list \<Rightarrow> bool \<times> int \<times> column_def option
     \<Rightarrow> (bool \<times> int \<times> column_def option) flow" where
  "checkAutoIncrement_cols [] s = Next s"
| "checkAutoIncrement_cols (colDef # cols) (isKey, count, autoIncrementCol) =
     (case checkAutoIncrement_options colDef 0 (cd_Options colDef) (False, isKey) of
        Panic p \<Rightarrow> Panic p
      | Return e \<Rightarrow> Return e
      | Next (hasAutoIncrement, isKey') \<Rightarrow>
          checkAutoIncrement_cols cols
            (if hasAutoIncrement then (isKey', count + 1, Some colDef)
             else (isKey', count, autoIncrementCol)))"

definition checkAutoIncrement ::
  "env \<Rightarrow> validator \<Rightarrow> create_table_stmt \<Rightarrow> panic + validator" where
  "checkAutoIncrement env v stmt =
     (case checkAutoIncrement_cols (ct_Cols stmt) (False, 0, None) of
        Panic p \<Rightarrow> Inl p
      | Return e \<Rightarrow> Inr (v\<lparr>err := Some e\<rparr>)
      | Next (isKey, count, autoIncrementCol) \<Rightarrow>
          if count < 1 then Inr v
          else
            (case autoIncrementCol of
               None \<Rightarrow> Inl NilPointerDereference
             | Some col \<Rightarrow>
                 (case (if \<not> isKey then isConstraintKeyTp (ct_Constraints stmt) col
                        else Inr isKey) of
                    Inl p \<Rightarrow> Inl p
                  | Inr isKey' \<Rightarrow>
                      (let autoIncrementMustBeKey =
                             (\<not> list_ex (\<lambda>opt. to_Tp opt = TableOptionEngine
                                          \<and> EqualFold env (to_StrValue opt) ''MyISAM'')
                                  (ct_Options stmt));
                           v1 = (if (autoIncrementMustBeKey \<and> \<not> isKey') \<or> count > 1
                                 then v\<lparr>err := Some ErrAutoIncrementKey\<rparr> else v)
                       in case cd_Tp col of
                            None \<Rightarrow> Inl NilPointerDereference
                          | Some tp \<Rightarrow>
                              if autoIncrementTp (ft_Tp tp)
                              then Inr v1
                              else Inr (v1\<lparr>err := Some (ErrIncorrectColumnSpecifier
                                          (str_O (cn_Name (cd_Name col))))\<rparr>)))))"

subsection \<open>The checks of a Dashbase table\<close>

text \<open>
  \<^verbatim>\<open>checkDashbase\<close>: the loop over the options of one column and the loop over the
  columns, with \<^verbatim>\<open>primaryKeys\<close>; the search for the column a constraint names (the first
  column of that lower-case name, which must have the type \<open>want\<close>); the loop over the
  constraints; and the method.
\<close>

fun checkDashbase_options :: "column_def \<Rightarrow> column_option list \<Rightarrow> int \<Rightarrow> int flow" where
  "checkDashbase_options colDef [] primaryKeys = Next primaryKeys"
| "checkDashbase_options colDef (op # ops) primaryKeys =
     (if co_Tp op = ColumnOptionPrimaryKey
      then (case cd_Tp colDef of
              None \<Rightarrow> Panic NilPointerDereference
            | Some tp \<Rightarrow>
                if ft_Tp tp \<noteq> TypeDatetime then Return ErrDashbasePKDatetime
                else checkDashbase_options colDef ops (primaryKeys + 1))
      else checkDashbase_options colDef ops primaryKeys)"

fun checkDashbase_cols :: "column_def list \<Rightarrow> int \<Rightarrow> int flow" where
  "checkDashbase_cols [] primaryKeys = Next primaryKeys"
| "checkDashbase_cols (colDef # cols) primaryKeys =
     (case checkDashbase_options colDef (cd_Options colDef) primaryKeys of
        Panic p \<Rightarrow> Panic p
      | Return e \<Rightarrow> Return e
      | Next n \<Rightarrow> checkDashbase_cols cols n)"

fun checkDashbase_column ::
  "column_def list \<Rightarrow> string \<Rightarrow> mysql_type \<Rightarrow> error \<Rightarrow> unit flow" where
  "checkDashbase_column [] key want e = Next ()"
| "checkDashbase_column (colDef # cols) key want e =
     (if str_L (cn_Name (cd_Name colDef)) = key
      then (case cd_Tp colDef of
              None \<Rightarrow> Panic NilPointerDereference
            | Some tp \<Rightarrow> if ft_Tp tp \<noteq> want then Return e else Next ())
      else checkDashbase_column cols key want e)"

fun checkDashbase_constraints :: "column_def list \<Rightarrow> constraint list \<Rightarrow> int \<Rightarrow> int flow" where
  "checkDashbase_constraints cols [] primaryKeys = Next primaryKeys"
| "checkDashbase_constraints cols (c # cs) primaryKeys =
     (if cs_Tp c = ConstraintPrimaryKey then
        (if length (cs_Keys c) \<noteq> 1 then Return ErrDashbasePKOneColumn
         else (case checkDashbase_column cols (str_L (cn_Name (ic_Column (cs_Keys c ! 0))))
                      TypeDatetime ErrDashbasePKDatetime of
                 Panic p \<Rightarrow> Panic p
               | Return e \<Rightarrow> Return e
               | Next _ \<Rightarrow> checkDashbase_constraints cols cs (primaryKeys + 1)))
      else if uniqueConstraintTp (cs_Tp c)
      then Return (ErrDashbaseConstraint (cs_Tp c))
      else if cs_Tp c = ConstraintKey \<or> cs_Tp c = ConstraintIndex then
        (if length (cs_Keys c) \<noteq> 1 then Return ErrDashbaseIndexOneColumn
         else (case checkDashbase_column cols (str_L (cn_Name (ic_Column (cs_Keys c ! 0))))
                      TypeBlob ErrDashbaseIndexText of
                 Panic p \<Rightarrow> Panic p
               | Return e \<Rightarrow> Return e
               | Next _ \<Rightarrow> checkDashbase_constraints cols cs primaryKeys))
      else checkDashbase_constraints cols cs primaryKeys)"

definition checkDashbase ::
  "env \<Rightarrow> validator \<Rightarrow> create_table_stmt \<Rightarrow> panic + validator" where
  "checkDashbase env v stmt =
     (if \<not> isEngineDashbase env stmt then Inr v
      else
        (case getStmtTableOption stmt TableOptionDashbaseConnection of
           None \<Rightarrow> Inr (v\<lparr>err := Some ErrDashbaseConnRequired\<rparr>)
         | Some opt \<Rightarrow>
             if \<not> ParseConnectionOption env (to_StrValue opt)
             then Inr (v\<lparr>err := Some ErrDashbaseConnInvalid\<rparr>)
             else
               (case checkDashbase_cols (ct_Cols stmt) 0 of
                  Panic p \<Rightarrow> Inl p
                | Return e \<Rightarrow> Inr (v\<lparr>err := Some e\<rparr>)
                | Next n \<Rightarrow>
                    (case checkDashbase_constraints (ct_Cols stmt) (ct_Constraints stmt) n of
                       Panic p \<Rightarrow> Inl p
                     | Return e \<Rightarrow> Inr (v\<lparr>err := Some e\<rparr>)
                     | Next primaryKeys \<Rightarrow>
                         if primaryKeys = 0
                         then Inr (v\<lparr>err := Some ErrDashbasePKRequired\<rparr>)
                         else Inr v))))"

subsection \<open>Enter and Leave\<close>

text \<open>
  What \<^verbatim>\<open>Leave\<close> uses of the interface \<^verbatim>\<open>ast.ExprNode\<close>: the type assertion
  \<^verbatim>\<open>x.Count.(*ast.ParamMarkerExpr)\<close>, \<^verbatim>\<open>GetValue().(uint64)\<close> in its two-result form (zero
  when the value is not a uint64), and \<^verbatim>\<open>SetValue\<close> of a uint64. \<^verbatim>\<open>Count\<close> and \<^verbatim>\<open>Offset\<close>
  are expressions in Go; on a node that is no expression the datum reads as null here and
  \<open>SetValue\<close> changes nothing.
\<close>

fun isParamMarker :: "node \<Rightarrow> bool" where
  "isParamMarker (ParamMarkerExpr d) = True"
| "isParamMarker n = False"

fun GetDatum :: "node \<Rightarrow> datum" where
  "GetDatum (AggregateFuncExpr d args) = d"
| "GetDatum (ParamMarkerExpr d) = d"
| "GetDatum (ValueExpr d) = d"
| "GetDatum (OtherExpr d children) = d"
| "GetDatum n = KindNull"

definition GetUint64 :: "node \<Rightarrow> 64 word" where
  "GetUint64 n = (case GetDatum n of KindUint64 x \<Rightarrow> x | _ \<Rightarrow> 0)"

fun SetValue :: "node \<Rightarrow> 64 word \<Rightarrow> node" where
  "SetValue (AggregateFuncExpr d args) x = AggregateFuncExpr (KindUint64 x) args"
| "SetValue (ParamMarkerExpr d) x = ParamMarkerExpr (KindUint64 x)"
| "SetValue (ValueExpr d) x = ValueExpr (KindUint64 x)"
| "SetValue (OtherExpr d children) x = OtherExpr (KindUint64 x) children"
| "SetValue n x = n"

text \<open>
  \<^verbatim>\<open>validator.Enter\<close>: the result is \<^verbatim>\<open>skipChildren\<close> and the validator (the node
  returned is always the node given).
\<close>

fun Enter :: "env \<Rightarrow> validator \<Rightarrow> node \<Rightarrow> panic + (bool \<times> validator)" where
  "Enter env v (AggregateFuncExpr d args) =
     (if inAggregate v then Inr (True, v\<lparr>err := Some ErrInvalidGroupFuncUse\<rparr>)
      else Inr (False, v\<lparr>inAggregate := True\<rparr>))"
| "Enter env v (CreateTableStmt stmt) =
     (case checkCreateTableGrammar env v stmt of
        Inl p \<Rightarrow> Inl p
      | Inr v1 \<Rightarrow> Inr (err v1 \<noteq> None, v1))"
| "Enter env v (CreateIndexStmt stmt) =
     (let v1 = checkCreateIndexGrammar v stmt in Inr (err v1 \<noteq> None, v1))"
| "Enter env v (AlterTableStmt stmt) =
     (case checkAlterTableGrammar env v stmt of
        Inl p \<Rightarrow> Inl p
      | Inr v1 \<Rightarrow> Inr (err v1 \<noteq> None, v1))"
| "Enter env v n = Inr (False, v)"

text \<open>The message "syntax error, unexpected '?'" of \<^verbatim>\<open>Leave\<close>.\<close>

definition unexpectedParamMarker :: string where
  "unexpectedParamMarker = ''syntax error, unexpected '' @ [CHR 0x27, CHR ''?'', CHR 0x27]"

text \<open>
  \<^verbatim>\<open>validator.Leave\<close>: the result is the node (a \<^verbatim>\<open>Limit\<close> with its count rewritten in
  place, else the node given), \<^verbatim>\<open>ok\<close>, and the validator.
\<close>

fun Leave :: "env \<Rightarrow> validator \<Rightarrow> node \<Rightarrow> panic + (node \<times> bool \<times> validator)" where
  "Leave env v (AggregateFuncExpr d args) =
     (let v1 = v\<lparr>inAggregate := False\<rparr>
      in Inr (AggregateFuncExpr d args, err v1 = None, v1))"
| "Leave env v (CreateTableStmt x) =
     (case checkDashbase env v x of
        Inl p \<Rightarrow> Inl p
      | Inr v1 \<Rightarrow>
          (case checkAutoIncrement env v1 x of
             Inl p \<Rightarrow> Inl p
           | Inr v2 \<Rightarrow> Inr (CreateTableStmt x, err v2 = None, v2)))"
| "Leave env v (ParamMarkerExpr d) =
     (if \<not> inPrepare v
      then Inr (ParamMarkerExpr d, False,
                v\<lparr>err := Some (ErrSyntax unexpectedParamMarker)\<rparr>)
      else Inr (ParamMarkerExpr d, err v = None, v))"
| "Leave env v (Limit Count Offset) =
     (case Count of
        None \<Rightarrow> Inr (Limit Count Offset, err v = None, v)
      | Some c \<Rightarrow>
          if isParamMarker c then Inr (Limit Count Offset, err v = None, v)
          else
            (let count = GetUint64 c;
                 offset = (case Offset of None \<Rightarrow> 0 | Some off \<Rightarrow> GetUint64 off)
             in Inr (Limit (if count > MaxUint64 - offset
                            then Some (SetValue c (MaxUint64 - offset)) else Some c)
                       Offset,
                     err v = None, v)))"
| "Leave env v n = Inr (n, err v = None, v)"

subsection \<open>The traversal\<close>

text \<open>
  Modelled from the spec: the \<^verbatim>\<open>Accept\<close> methods of the nodes (package ast, which is not
  among the sources). One depth-first visit: \<^verbatim>\<open>Enter\<close> on the way in; when it asks to
  skip the children, \<^verbatim>\<open>Leave\<close> at once; else the children in order, and the visit stops,
  without \<^verbatim>\<open>Leave\<close> on the node, at the first child whose visit does not return ok ("the
  first error produced anywhere stops further semantic evaluation"); then \<^verbatim>\<open>Leave\<close> on
  the way out. The tree returned is the tree as the visit left it in place.
\<close>

fun Accept :: "env \<Rightarrow> validator \<Rightarrow> node \<Rightarrow> panic + (node \<times> bool \<times> validator)"
  and AcceptList :: "env \<Rightarrow> validator \<Rightarrow> node list \<Rightarrow> panic + (node list \<times> bool \<times> validator)"
  and AcceptOpt :: "env \<Rightarrow> validator \<Rightarrow> node option \<Rightarrow> panic + (node option \<times> bool \<times> validator)"
where
  "Accept env v (AggregateFuncExpr d args) =
     (case Enter env v (AggregateFuncExpr d args) of
        Inl p \<Rightarrow> Inl p
      | Inr (skipChildren, v1) \<Rightarrow>
          if skipChildren then Leave env v1 (AggregateFuncExpr d args)
          else (case AcceptList env v1 args of
                  Inl p \<Rightarrow> Inl p
                | Inr (args', ok, v2) \<Rightarrow>
                    if \<not> ok then Inr (AggregateFuncExpr d args', False, v2)
                    else Leave env v2 (AggregateFuncExpr d args')))"
| "Accept env v (OtherExpr d children) =
     (case Enter env v (OtherExpr d children) of
        Inl p \<Rightarrow> Inl p
      | Inr (skipChildren, v1) \<Rightarrow>
          if skipChildren then Leave env v1 (OtherExpr d children)
          else (case AcceptList env v1 children of
                  Inl p \<Rightarrow> Inl p
                | Inr (children', ok, v2) \<Rightarrow>
                    if \<not> ok then Inr (OtherExpr d children', False, v2)
                    else Leave env v2 (OtherExpr d children')))"
| "Accept env v (OtherNode children) =
     (case Enter env v (OtherNode children) of
        Inl p \<Rightarrow> Inl p
      | Inr (skipChildren, v1) \<Rightarrow>
          if skipChildren then Leave env v1 (OtherNode children)
          else (case AcceptList env v1 children of
                  Inl p \<Rightarrow> Inl p
                | Inr (children', ok, v2) \<Rightarrow>
                    if \<not> ok then Inr (OtherNode children', False, v2)
                    else Leave env v2 (OtherNode children')))"
| "Accept env v (Limit Count Offset) =
     (case Enter env v (Limit Count Offset) of
        Inl p \<Rightarrow> Inl p
      | Inr (skipChildren, v1) \<Rightarrow>
          if skipChildren then Leave env v1 (Limit Count Offset)
          else (case AcceptOpt env v1 Count of
                  Inl p \<Rightarrow> Inl p
                | Inr (Count', ok, v2) \<Rightarrow>
                    if \<not> ok then Inr (Limit Count' Offset, False, v2)
                    else (case AcceptOpt env v2 Offset of
                            Inl p \<Rightarrow> Inl p
                          | Inr (Offset', ok', v3) \<Rightarrow>
                              if \<not> ok' then Inr (Limit Count' Offset', False, v3)
                              else Leave env v3 (Limit Count' Offset'))))"
| "Accept env v (ParamMarkerExpr d) =
     (case Enter env v (ParamMarkerExpr d) of
        Inl p \<Rightarrow> Inl p
      | Inr (skipChildren, v1) \<Rightarrow> Leave env v1 (ParamMarkerExpr d))"
| "Accept env v (ValueExpr d) =
     (case Enter env v (ValueExpr d) of
        Inl p \<Rightarrow> Inl p
      | Inr (skipChildren, v1) \<Rightarrow> Leave env v1 (ValueExpr d))"
| "Accept env v (CreateTableStmt stmt) =
     (case Enter env v (CreateTableStmt stmt) of
        Inl p \<Rightarrow> Inl p
      | Inr (skipChildren, v1) \<Rightarrow> Leave env v1 (CreateTableStmt stmt))"
| "Accept env v (CreateIndexStmt stmt) =
     (case Enter env v (CreateIndexStmt stmt) of
        Inl p \<Rightarrow> Inl p
      | Inr (skipChildren, v1) \<Rightarrow> Leave env v1 (CreateIndexStmt stmt))"
| "Accept env v (AlterTableStmt stmt) =
     (case Enter env v (AlterTableStmt stmt) of
        Inl p \<Rightarrow> Inl p
      | Inr (skipChildren, v1) \<Rightarrow> Leave env v1 (AlterTableStmt stmt))"
| "AcceptList env v [] = Inr ([], True, v)"
| "AcceptList env v (n # ns) =
     (case Accept env v n of
        Inl p \<Rightarrow> Inl p
      | Inr (n', ok, v1) \<Rightarrow>
          if \<not> ok then Inr (n' # ns, False, v1)
          else (case AcceptList env v1 ns of
                  Inl p \<Rightarrow> Inl p
                | Inr (ns', ok', v2) \<Rightarrow> Inr (n' # ns', ok', v2)))"
| "AcceptOpt env v None = Inr (None, True, v)"
| "AcceptOpt env v (Some n) =
     (case Accept env v n of
        Inl p \<Rightarrow> Inl p
      | Inr (n', ok, v1) \<Rightarrow> Inr (Some n', ok, v1))"

text \<open>
  \<^verbatim>\<open>Validate\<close>: a fresh validator, one visit, and the error slot. The result also holds
  the tree after the visit, which the Go caller sees through its pointer.
\<close>

definition newValidator :: "bool \<Rightarrow> validator" where
  "newValidator inPrep =
     \<lparr>err = None, wildCardCount = 0, inPrepare = inPrep, inAggregate = False\<rparr>"

definition Validate :: "env \<Rightarrow> node \<Rightarrow> bool \<Rightarrow> panic + (error option \<times> node)" where
  "Validate env node inPrep =
     (case Accept env (newValidator inPrep) node of
        Inl p \<Rightarrow> Inl p
      | Inr (node', ok, v) \<Rightarrow> Inr (err v, node'))"

section \<open>Notions used to state the properties\<close>

text \<open>
  An environment for the examples: ASCII case folding is not needed there, so
  \<^verbatim>\<open>EqualFold\<close> is equality; the only charset is utf8 with three bytes to the character;
  a connection string parses when it is not empty; the constants have the values of
  package mysql.
\<close>

definition exampleEnv :: env where
  "exampleEnv =
     \<lparr>EqualFold = (\<lambda>s t. s = t),
      GetCharsetDesc = (\<lambda>cs. if cs = ''utf8'' then Some 3 else None),
      ParseConnectionOption = (\<lambda>s. s \<noteq> []),
      UnspecifiedLength = - 1,
      MaxFieldCharLength = 255,
      MaxFieldVarCharLength = 65535,
      PrecisionForDouble = 53,
      MaxTypeSetMembers = 64,
      DefaultCharset = ''utf8''\<rparr>"

text \<open>
  The children of a node in the order \<^verbatim>\<open>Accept\<close> visits them, and a node with its
  children replaced; \<open>Accept\<close> is the same visit for every kind of node when written with
  them (lemma \<open>Accept_generic\<close>).
\<close>

fun children :: "node \<Rightarrow> node list" where
  "children (AggregateFuncExpr d args) = args"
| "children (OtherExpr d cs) = cs"
| "children (OtherNode cs) = cs"
| "children (Limit Count Offset) =
     (case Count of None \<Rightarrow> [] | Some c \<Rightarrow> [c]) @ (case Offset of None \<Rightarrow> [] | Some c \<Rightarrow> [c])"
| "children n = []"

fun withChildren :: "node \<Rightarrow> node list \<Rightarrow> node" where
  "withChildren (AggregateFuncExpr d args) cs = AggregateFuncExpr d cs"
| "withChildren (OtherExpr d args) cs = OtherExpr d cs"
| "withChildren (OtherNode args) cs = OtherNode cs"
| "withChildren (Limit Count Offset) cs =
     Limit (case Count of None \<Rightarrow> None | Some c \<Rightarrow> Some (hd cs))
           (case Offset of None \<Rightarrow> None | Some c \<Rightarrow> Some (last cs))"
| "withChildren n cs = n"

fun isAggregate :: "node \<Rightarrow> bool" where
  "isAggregate (AggregateFuncExpr d args) = True"
| "isAggregate n = False"

text \<open>
  What a visit that starts with an empty error slot leaves behind: it returns ok exactly
  when the slot is still empty, it never changes the prepare flag, and when it returns ok
  the aggregate flag is what it was.
\<close>

definition inv_result :: "validator \<Rightarrow> bool \<Rightarrow> validator \<Rightarrow> bool" where
  "inv_result v ok v' =
     (ok = (err v' = None) \<and> inPrepare v' = inPrepare v
      \<and> (ok \<longrightarrow> inAggregate v' = inAggregate v))"

text \<open>A node and the same node after \<^verbatim>\<open>SetValue\<close>.\<close>

definition revalued :: "node \<Rightarrow> node \<Rightarrow> bool" where
  "revalued c c' = (c' = c \<or> (\<exists>x. c' = SetValue c x))"

text \<open>
  An aggregate-function node occurs in the tree.
\<close>

fun containsAggregate :: "node \<Rightarrow> bool" where
  "containsAggregate (AggregateFuncExpr d args) = True"
| "containsAggregate (OtherExpr d cs) = list_ex containsAggregate cs"
| "containsAggregate (OtherNode cs) = list_ex containsAggregate cs"
| "containsAggregate (Limit Count Offset) =
     ((case Count of None \<Rightarrow> False | Some c \<Rightarrow> containsAggregate c)
      \<or> (case Offset of None \<Rightarrow> False | Some c \<Rightarrow> containsAggregate c))"
| "containsAggregate n = False"

text \<open>
  An aggregate-function node occurs inside the argument subtree of another
  aggregate-function node.
\<close>

fun nestedAggregate :: "node \<Rightarrow> bool" where
  "nestedAggregate (AggregateFuncExpr d args) = list_ex containsAggregate args"
| "nestedAggregate (OtherExpr d cs) = list_ex nestedAggregate cs"
| "nestedAggregate (OtherNode cs) = list_ex nestedAggregate cs"
| "nestedAggregate (Limit Count Offset) =
     ((case Count of None \<Rightarrow> False | Some c \<Rightarrow> nestedAggregate c)
      \<or> (case Offset of None \<Rightarrow> False | Some c \<Rightarrow> nestedAggregate c))"
| "nestedAggregate n = False"

text \<open>
  The tree contains a parameter marker.
\<close>

fun hasParamMarker :: "node \<Rightarrow> bool" where
  "hasParamMarker (ParamMarkerExpr d) = True"
| "hasParamMarker (AggregateFuncExpr d args) = list_ex hasParamMarker args"
| "hasParamMarker (OtherExpr d cs) = list_ex hasParamMarker cs"
| "hasParamMarker (OtherNode cs) = list_ex hasParamMarker cs"
| "hasParamMarker (Limit Count Offset) =
     ((case Count of None \<Rightarrow> False | Some c \<Rightarrow> hasParamMarker c)
      \<or> (case Offset of None \<Rightarrow> False | Some c \<Rightarrow> hasParamMarker c))"
| "hasParamMarker n = False"

text \<open>
  The three statement kinds with an entry-time grammar check.
\<close>

fun isDDL :: "node \<Rightarrow> bool" where
  "isDDL (CreateTableStmt stmt) = True"
| "isDDL (CreateIndexStmt stmt) = True"
| "isDDL (AlterTableStmt stmt) = True"
| "isDDL n = False"

text \<open>
  No node of the tree is a CREATE TABLE, CREATE INDEX or ALTER TABLE statement.
\<close>

fun noDDL :: "node \<Rightarrow> bool" where
  "noDDL (AggregateFuncExpr d args) = list_all noDDL args"
| "noDDL (OtherExpr d cs) = list_all noDDL cs"
| "noDDL (OtherNode cs) = list_all noDDL cs"
| "noDDL (Limit Count Offset) =
     ((case Count of None \<Rightarrow> True | Some c \<Rightarrow> noDDL c)
      \<and> (case Offset of None \<Rightarrow> True | Some c \<Rightarrow> noDDL c))"
| "noDDL (CreateTableStmt stmt) = False"
| "noDDL (CreateIndexStmt stmt) = False"
| "noDDL (AlterTableStmt stmt) = False"
| "noDDL n = True"

text \<open>
  The two errors of the expression-level checks.
\<close>

fun exprError :: "error \<Rightarrow> bool" where
  "exprError ErrInvalidGroupFuncUse = True"
| "exprError (ErrSyntax m) = True"
| "exprError e = False"

text \<open>
  What makes the visit of a tree meet the nesting error: an aggregate anywhere when the
  visit starts inside an aggregate, a nested aggregate otherwise.
\<close>

definition aggregateInside :: "bool \<Rightarrow> node \<Rightarrow> bool" where
  "aggregateInside flag n = (if flag then containsAggregate n else nestedAggregate n)"

text \<open>
  The cause of an expression-level error \<open>e\<close>: the nesting error needs \<open>agg\<close>, the
  syntax error needs a call outside prepare mode and \<open>par\<close>.
\<close>

definition exprErrorCause :: "validator \<Rightarrow> error \<Rightarrow> bool \<Rightarrow> bool \<Rightarrow> bool" where
  "exprErrorCause v e agg par =
     ((e = ErrInvalidGroupFuncUse \<and> agg)
      \<or> (e = ErrSyntax unexpectedParamMarker \<and> \<not> inPrepare v \<and> par))"

text \<open>
  The visit returns, with ok exactly when \<open>bad\<close> is false, and with the nesting error
  in the slot when \<open>bad\<close> is true.
\<close>

definition nestingOutcome ::
  "validator \<Rightarrow> bool \<Rightarrow> (bool \<times> validator) option \<Rightarrow> bool" where
  "nestingOutcome v bad r =
     (case r of
        None \<Rightarrow> False
      | Some (ok, v') \<Rightarrow> ok = (\<not> bad) \<and> (bad \<longrightarrow> err v' = Some ErrInvalidGroupFuncUse))"

text \<open>
  The ok flag and the validator a visit returns, \<open>None\<close> when it panics.
\<close>

definition outcome :: "panic + ('a \<times> bool \<times> validator) \<Rightarrow> (bool \<times> validator) option" where
  "outcome r = (case r of Inl p \<Rightarrow> None | Inr (n', ok, v') \<Rightarrow> Some (ok, v'))"

text \<open>
  The visit outside prepare mode of a tree that validates in prepare mode: the syntax
  error when the tree has a parameter marker (\<open>par\<close>), else the same result.
\<close>

definition paramOutcome ::
  "bool \<Rightarrow> panic + ('a \<times> bool \<times> validator) \<Rightarrow> 'a \<Rightarrow> validator \<Rightarrow> bool" where
  "paramOutcome par r n' v' =
     (if par
      then (\<exists>n'' w'. r = Inr (n'', False, w') \<and> err w' = Some (ErrSyntax unexpectedParamMarker))
      else r = Inr (n', True, v'\<lparr>inPrepare := False\<rparr>))"

text \<open>
  Builders for the statements of the examples: a name that is already in lower case, a
  column of a type with unspecified length, an option without and with an expression, a
  constraint over named columns, and a table.
\<close>

definition mkName :: "string \<Rightarrow> cistr" where
  "mkName s = \<lparr>str_O = s, str_L = s\<rparr>"

definition mkColumn :: "string \<Rightarrow> mysql_type \<Rightarrow> column_option list \<Rightarrow> column_def" where
  "mkColumn s tp ops =
     \<lparr>cd_Name = \<lparr>cn_Name = mkName s\<rparr>,
      cd_Tp = Some \<lparr>ft_Tp = tp, ft_Flen = - 1, ft_Charset = [], ft_Elems = []\<rparr>,
      cd_Options = ops\<rparr>"

definition mkOption :: "column_option_type \<Rightarrow> column_option" where
  "mkOption tp = \<lparr>co_Tp = tp, co_Expr = None\<rparr>"

definition mkDefault :: "datum \<Rightarrow> column_option" where
  "mkDefault d = \<lparr>co_Tp = ColumnOptionDefaultValue, co_Expr = Some d\<rparr>"

definition mkConstraint :: "constraint_type \<Rightarrow> string list \<Rightarrow> constraint" where
  "mkConstraint tp keys =
     \<lparr>cs_Tp = tp, cs_Keys = map (\<lambda>s. \<lparr>ic_Column = \<lparr>cn_Name = mkName s\<rparr>\<rparr>) keys\<rparr>"

definition mkTable ::
  "string \<Rightarrow> column_def list \<Rightarrow> constraint list \<Rightarrow> table_option list \<Rightarrow> create_table_stmt" where
  "mkTable s cols cs opts =
     \<lparr>ct_Table = Some \<lparr>tn_Name = mkName s\<rparr>, ct_Cols = cols, ct_Constraints = cs,
      ct_Options = opts\<rparr>"

text \<open>
  The error each of the three checks of a CREATE TABLE statement stores, \<open>None\<close> when it
  stores none: the check run on a validator whose error slot is empty.
\<close>

definition grammarVerdict :: "env \<Rightarrow> create_table_stmt \<Rightarrow> panic + error option" where
  "grammarVerdict env stmt =
     (case checkCreateTableGrammar env (newValidator False) stmt of
        Inl p \<Rightarrow> Inl p | Inr v \<Rightarrow> Inr (err v))"

definition dashbaseVerdict :: "env \<Rightarrow> create_table_stmt \<Rightarrow> panic + error option" where
  "dashbaseVerdict env stmt =
     (case checkDashbase env (newValidator False) stmt of
        Inl p \<Rightarrow> Inl p | Inr v \<Rightarrow> Inr (err v))"

definition autoIncrementVerdict :: "env \<Rightarrow> create_table_stmt \<Rightarrow> panic + error option" where
  "autoIncrementVerdict env stmt =
     (case checkAutoIncrement env (newValidator False) stmt of
        Inl p \<Rightarrow> Inl p | Inr v \<Rightarrow> Inr (err v))"

text \<open>
  A check seen from its verdict: it leaves the validator alone or stores its error.
\<close>

definition applyVerdict :: "validator \<Rightarrow> panic + error option \<Rightarrow> panic + validator" where
  "applyVerdict v r =
     (case r of Inl p \<Rightarrow> Inl p | Inr None \<Rightarrow> Inr v | Inr (Some e) \<Rightarrow> Inr (v\<lparr>err := Some e\<rparr>))"

text \<open>
  The error slot after the three checks of one CREATE TABLE node, from their verdicts:
  the error of the last check that stored one.
\<close>

definition lastError :: "error option \<Rightarrow> error option \<Rightarrow> error option \<Rightarrow> error option" where
  "lastError g d a =
     (case a of Some e \<Rightarrow> Some e | None \<Rightarrow> (case d of Some e \<Rightarrow> Some e | None \<Rightarrow> g))"

text \<open>
  Column options by kind: a default-value option whose datum is not null, the
  auto-increment option, the two options that make a column a key.
\<close>

definition nonNullDefault :: "column_option \<Rightarrow> bool" where
  "nonNullDefault op = (co_Tp op = ColumnOptionDefaultValue \<and> co_Expr op \<noteq> Some KindNull)"

definition isAutoIncrement :: "column_option \<Rightarrow> bool" where
  "isAutoIncrement op = (co_Tp op = ColumnOptionAutoIncrement)"

definition isKeyOption :: "column_option \<Rightarrow> bool" where
  "isKeyOption op = (co_Tp op = ColumnOptionPrimaryKey \<or> co_Tp op = ColumnOptionUniqKey)"

text \<open>
  The options at positions \<open>i < j\<close> of one column are an auto-increment option and a
  non-null default, in either order.
\<close>

definition conflictAt :: "column_option list \<Rightarrow> nat \<Rightarrow> nat \<Rightarrow> bool" where
  "conflictAt ops i j =
     (i < j \<and> j < length ops
      \<and> ((isAutoIncrement (ops ! i) \<and> nonNullDefault (ops ! j))
         \<or> (nonNullDefault (ops ! i) \<and> isAutoIncrement (ops ! j))))"

text \<open>
  Some two options of the list are in conflict (lemma \<open>conflict_iff\<close>).
\<close>

fun conflict :: "column_option list \<Rightarrow> bool" where
  "conflict [] = False"
| "conflict (op # ops) =
     ((isAutoIncrement op \<and> list_ex nonNullDefault ops)
      \<or> (nonNullDefault op \<and> list_ex isAutoIncrement ops)
      \<or> conflict ops)"

text \<open>
  Every default-value option has an expression.
\<close>

definition wfOptions :: "column_option list \<Rightarrow> bool" where
  "wfOptions ops = list_all (\<lambda>op. co_Tp op \<noteq> ColumnOptionDefaultValue \<or> co_Expr op \<noteq> None) ops"

text \<open>
  Columns: with an auto-increment option, with a key option, with two options in
  conflict; and the auto-increment columns of a list.
\<close>

definition hasAutoIncrement :: "column_def \<Rightarrow> bool" where
  "hasAutoIncrement c = list_ex isAutoIncrement (cd_Options c)"

definition hasKeyOption :: "column_def \<Rightarrow> bool" where
  "hasKeyOption c = list_ex isKeyOption (cd_Options c)"

definition conflictColumn :: "column_def \<Rightarrow> bool" where
  "conflictColumn c = conflict (cd_Options c)"

definition autoIncrementCols :: "column_def list \<Rightarrow> column_def list" where
  "autoIncrementCols cols = filter hasAutoIncrement cols"

text \<open>
  In every column, every default-value option has an expression.
\<close>

definition wfDefaults :: "create_table_stmt \<Rightarrow> bool" where
  "wfDefaults stmt = list_all (\<lambda>c. wfOptions (cd_Options c)) (ct_Cols stmt)"

text \<open>
  The variable \<^verbatim>\<open>autoIncrementMustBeKey\<close> of \<^verbatim>\<open>checkAutoIncrement\<close>: no engine option
  names MyISAM.
\<close>

definition autoIncrementMustBeKey :: "env \<Rightarrow> create_table_stmt \<Rightarrow> bool" where
  "autoIncrementMustBeKey env stmt =
     (\<not> list_ex (\<lambda>opt. to_Tp opt = TableOptionEngine \<and> EqualFold env (to_StrValue opt) ''MyISAM'')
          (ct_Options stmt))"

text \<open>
  The errors of the entry-time grammar check, of the Dashbase check, and of the
  auto-increment check.
\<close>

fun grammarError :: "error \<Rightarrow> bool" where
  "grammarError (ErrWrongTableName n) = True"
| "grammarError ErrMultiplePriKey = True"
| "grammarError (ErrColumnExists n) = True"
| "grammarError (ErrTooBigDisplayWidth c m) = True"
| "grammarError (ErrTooBigFieldLength c m) = True"
| "grammarError (ErrWrongFieldSpec c) = True"
| "grammarError (ErrTooBigSet c) = True"
| "grammarError (ErrUnknownCharset cs) = True"
| "grammarError e = False"

fun dashbaseError :: "error \<Rightarrow> bool" where
  "dashbaseError ErrDashbaseConnRequired = True"
| "dashbaseError ErrDashbaseConnInvalid = True"
| "dashbaseError ErrDashbasePKDatetime = True"
| "dashbaseError ErrDashbasePKOneColumn = True"
| "dashbaseError (ErrDashbaseConstraint tp) = True"
| "dashbaseError ErrDashbaseIndexOneColumn = True"
| "dashbaseError ErrDashbaseIndexText = True"
| "dashbaseError ErrDashbasePKRequired = True"
| "dashbaseError e = False"


text \<open>
  What keeps the checks from panicking: no charset has a zero \<^verbatim>\<open>Maxlen\<close>; every column
  has a type; every constraint has a key.
\<close>

definition charsetsOk :: "env \<Rightarrow> bool" where
  "charsetsOk env = (\<forall>cs. GetCharsetDesc env cs \<noteq> Some 0)"

definition typedColumns :: "create_table_stmt \<Rightarrow> bool" where
  "typedColumns stmt = list_all (\<lambda>c. cd_Tp c \<noteq> None) (ct_Cols stmt)"

definition keysNonEmpty :: "create_table_stmt \<Rightarrow> bool" where
  "keysNonEmpty stmt = list_all (\<lambda>k. cs_Keys k \<noteq> []) (ct_Constraints stmt)"

text \<open>
  The number of columns with a primary-key option (a column with several counts once,
  as \<open>isPrimary\<close> does) and the number of primary-key constraints.
\<close>

definition primaryKeyColumns :: "column_def list \<Rightarrow> int" where
  "primaryKeyColumns cols = sum_list (map (\<lambda>c. isPrimary (cd_Options c)) cols)"

definition primaryKeyConstraints :: "constraint list \<Rightarrow> int" where
  "primaryKeyConstraints cs = int (length (filter (\<lambda>c. cs_Tp c = ConstraintPrimaryKey) cs))"

text \<open>
  The number of primary-key options of all columns, each option counted, as
  \<^verbatim>\<open>checkDashbase\<close> counts them.
\<close>

definition isPrimaryOption :: "column_option \<Rightarrow> bool" where
  "isPrimaryOption op = (co_Tp op = ColumnOptionPrimaryKey)"

definition primaryKeyOptions :: "column_def list \<Rightarrow> int" where
  "primaryKeyOptions cols =
     sum_list (map (\<lambda>c. int (length (filter isPrimaryOption (cd_Options c)))) cols)"

text \<open>
  A column of a given type; the first column of a given lower-case name, if there is
  one, has the type; the name of the first key of a constraint.
\<close>

definition columnHasType :: "column_def \<Rightarrow> mysql_type \<Rightarrow> bool" where
  "columnHasType c tp = (case cd_Tp c of None \<Rightarrow> False | Some t \<Rightarrow> ft_Tp t = tp)"

definition namedColumnHasType :: "column_def list \<Rightarrow> string \<Rightarrow> mysql_type \<Rightarrow> bool" where
  "namedColumnHasType cols key tp =
     (case find (\<lambda>c. str_L (cn_Name (cd_Name c)) = key) cols of
        None \<Rightarrow> True
      | Some c \<Rightarrow> columnHasType c tp)"

definition keyName :: "constraint \<Rightarrow> string" where
  "keyName k = str_L (cn_Name (ic_Column (cs_Keys k ! 0)))"

text \<open>
  What \<^verbatim>\<open>checkDashbase\<close> asks of the columns and constraints: a column with a
  primary-key option is a datetime column; there is no unique constraint; a primary-key
  constraint has one key, on a datetime column; a key or index constraint has one key, on
  a blob column.
\<close>

definition dashbaseStructure :: "create_table_stmt \<Rightarrow> bool" where
  "dashbaseStructure stmt =
     (list_all (\<lambda>c. \<not> list_ex isPrimaryOption (cd_Options c) \<or> columnHasType c TypeDatetime)
        (ct_Cols stmt)
      \<and> list_all (\<lambda>k. \<not> uniqueConstraintTp (cs_Tp k)) (ct_Constraints stmt)
      \<and> list_all (\<lambda>k. cs_Tp k \<noteq> ConstraintPrimaryKey
                      \<or> (length (cs_Keys k) = 1
                          \<and> namedColumnHasType (ct_Cols stmt) (keyName k) TypeDatetime))
          (ct_Constraints stmt)
      \<and> list_all (\<lambda>k. (cs_Tp k \<noteq> ConstraintKey \<and> cs_Tp k \<noteq> ConstraintIndex)
                      \<or> (length (cs_Keys k) = 1
                          \<and> namedColumnHasType (ct_Cols stmt) (keyName k) TypeBlob))
          (ct_Constraints stmt))"

text \<open>
  A table option, and the statements of the examples.
\<close>

definition mkTableOption :: "table_option_type \<Rightarrow> string \<Rightarrow> table_option" where
  "mkTableOption tp s = \<lparr>to_Tp = tp, to_StrValue = s\<rparr>"

definition dashbaseExample :: create_table_stmt where
  "dashbaseExample =
     mkTable ''t''
       [mkColumn ''ts'' TypeDatetime [mkOption ColumnOptionPrimaryKey],
        mkColumn ''body'' TypeBlob []]
       [mkConstraint ConstraintIndex [''body'']]
       [mkTableOption TableOptionEngine ''Dashbase'',
        mkTableOption TableOptionDashbaseConnection ''host:9876'']"




definition emptyKeysExample :: create_table_stmt where
  "emptyKeysExample =
     mkTable ''t'' [mkColumn ''a'' TypeLong [mkOption ColumnOptionAutoIncrement]]
       [mkConstraint ConstraintForeignKey [''a''], mkConstraint ConstraintKey []] []"







text \<open>
  The offset \<^verbatim>\<open>Leave\<close> reads on a \<^verbatim>\<open>Limit\<close> node (its local variable \<^verbatim>\<open>offset\<close>): the
  value of a uint64 offset, and zero when the node has no offset or the offset holds no
  uint64.
\<close>

definition offsetValue :: "node option \<Rightarrow> 64 word" where
  "offsetValue Offset = (case Offset of None \<Rightarrow> 0 | Some off \<Rightarrow> GetUint64 off)"

text \<open>
  The clamp as the specification words it, on natural numbers: a count that is present
  and no parameter marker is rewritten to \<open>2^64 - 1 - offset\<close> when it is greater than
  that, and every other node is left as it is. \<open>clampAll\<close> is the tree with the clamp
  applied at every \<^verbatim>\<open>Limit\<close> node, the children of a node before the node.
\<close>

fun clampLimit :: "node \<Rightarrow> node" where
  "clampLimit (Limit (Some c) Offset) =
     (if isParamMarker c then Limit (Some c) Offset
      else if 2 ^ 64 - 1 - unat (offsetValue Offset) < unat (GetUint64 c)
           then Limit (Some (SetValue c (of_nat (2 ^ 64 - 1 - unat (offsetValue Offset))))) Offset
           else Limit (Some c) Offset)"
| "clampLimit n = n"

fun clampAll :: "node \<Rightarrow> node" where
  "clampAll (AggregateFuncExpr d args) = AggregateFuncExpr d (map clampAll args)"
| "clampAll (OtherExpr d cs) = OtherExpr d (map clampAll cs)"
| "clampAll (OtherNode cs) = OtherNode (map clampAll cs)"
| "clampAll (Limit Count Offset) =
     clampLimit (Limit (map_option clampAll Count) (map_option clampAll Offset))"
| "clampAll n = n"

section \<open>Properties\<close>

subsection \<open>The Limit clamp\<close>

lemma MaxUint64_eq: "MaxUint64 = - 1"
  by (simp add: MaxUint64_def)

lemma unat_MaxUint64_minus: "unat (MaxUint64 - off) = 2 ^ 64 - 1 - unat off"
proof -
  have "off \<le> MaxUint64"
    by (simp add: MaxUint64_eq)
  then have "unat (MaxUint64 - off) = unat MaxUint64 - unat off"
    by (rule unat_sub)
  then show ?thesis
    by (simp add: MaxUint64_def)
qed

lemma clamp_condition: "(MaxUint64 - off < c) = (2 ^ 64 - 1 - unat off < unat c)"
  by (simp add: word_less_nat_alt unat_MaxUint64_minus)

lemma Validate_Limit_values:
  "Validate env (Limit (Some (ValueExpr (KindUint64 c))) (Some (ValueExpr (KindUint64 off)))) p =
     Inr (None,
          Limit (Some (ValueExpr (KindUint64 (if MaxUint64 - off < c then MaxUint64 - off else c))))
            (Some (ValueExpr (KindUint64 off))))"
  by (simp add: Validate_def newValidator_def GetUint64_def)

subsection \<open>The checkers change the error slot only\<close>

lemma checkCreateTableGrammar_frame:
  "checkCreateTableGrammar env v stmt = Inr v' \<Longrightarrow> v' = v\<lparr>err := err v'\<rparr>"
  by (auto simp: checkCreateTableGrammar_def split: if_splits flow.splits)

lemma checkDashbase_frame:
  "checkDashbase env v stmt = Inr v' \<Longrightarrow> v' = v\<lparr>err := err v'\<rparr>"
  by (auto simp: checkDashbase_def split: if_splits flow.splits option.splits)

lemma checkAutoIncrement_frame:
  "checkAutoIncrement env v stmt = Inr v' \<Longrightarrow> v' = v\<lparr>err := err v'\<rparr>"
  by (auto simp: checkAutoIncrement_def Let_def split: if_splits flow.splits option.splits sum.splits prod.splits)

lemma checkAlterTableGrammar_specs_frame:
  "checkAlterTableGrammar_specs env v specs = Inr v' \<Longrightarrow> v' = v\<lparr>err := err v'\<rparr>"
proof (induction specs arbitrary: v)
  case Nil
  then show ?case by simp
next
  case (Cons spec specs)
  have upd: "\<And>x w. w = (v\<lparr>err := x\<rparr>)\<lparr>err := err w\<rparr> \<Longrightarrow> w = v\<lparr>err := err w\<rparr>"
    by simp
  from Cons.prems show ?case
    by (auto simp: Let_def split: if_splits option.splits sum.splits
        dest!: Cons.IH intro: upd)
qed

lemma validator_upd_eq: "w = v\<lparr>err := x\<rparr> \<Longrightarrow> inPrepare w = inPrepare v \<and> inAggregate w = inAggregate v \<and> wildCardCount w = wildCardCount v"
  by simp

lemma Enter_inPrepare:
  "Enter env v n = Inr (skip, v1) \<Longrightarrow> inPrepare v1 = inPrepare v"
  by (cases n)
     (auto simp: checkCreateIndexGrammar_def checkAlterTableGrammar_def Let_def
       split: if_splits sum.splits
       dest!: checkCreateTableGrammar_frame checkAlterTableGrammar_specs_frame validator_upd_eq)

lemma Enter_skip:
  "Enter env v n = Inr (skip, v1) \<Longrightarrow> err v = None \<Longrightarrow> skip = (err v1 \<noteq> None)"
  by (cases n)
     (auto simp: checkCreateIndexGrammar_def checkAlterTableGrammar_def Let_def
       split: if_splits sum.splits)

lemma Enter_inAggregate:
  "Enter env v n = Inr (False, v1) \<Longrightarrow> inAggregate v1 = (inAggregate v \<or> isAggregate n)"
  by (cases n)
     (auto simp: checkCreateIndexGrammar_def checkAlterTableGrammar_def Let_def
       split: if_splits sum.splits
       dest!: checkCreateTableGrammar_frame checkAlterTableGrammar_specs_frame validator_upd_eq)

lemma Enter_aggregate_not_inside:
  "Enter env v n = Inr (False, v1) \<Longrightarrow> isAggregate n \<Longrightarrow> \<not> inAggregate v"
  by (cases n) (auto split: if_splits)

lemma Leave_ok:
  "Leave env v n = Inr (n', ok, v') \<Longrightarrow> ok = (err v' = None)"
  by (cases n) (auto simp: Let_def split: if_splits sum.splits option.splits)

lemma Leave_inPrepare:
  "Leave env v n = Inr (n', ok, v') \<Longrightarrow> inPrepare v' = inPrepare v"
  by (cases n) (auto simp: Let_def split: if_splits sum.splits option.splits
       dest!: checkDashbase_frame checkAutoIncrement_frame validator_upd_eq)

lemma Leave_inAggregate:
  "Leave env v n = Inr (n', ok, v') \<Longrightarrow> inAggregate v' = (inAggregate v \<and> \<not> isAggregate n)"
  by (cases n) (auto simp: Let_def split: if_splits sum.splits option.splits
       dest!: checkDashbase_frame checkAutoIncrement_frame validator_upd_eq)

lemma checkDashbase_sticky:
  "checkDashbase env v stmt = Inr v' \<Longrightarrow> err v \<noteq> None \<Longrightarrow> err v' \<noteq> None"
  by (auto simp: checkDashbase_def split: if_splits flow.splits option.splits)

lemma checkAutoIncrement_sticky:
  "checkAutoIncrement env v stmt = Inr v' \<Longrightarrow> err v \<noteq> None \<Longrightarrow> err v' \<noteq> None"
  by (auto simp: checkAutoIncrement_def Let_def split: if_splits flow.splits option.splits sum.splits prod.splits)

lemma Leave_sticky:
  "Leave env v n = Inr (n', ok, v') \<Longrightarrow> err v \<noteq> None \<Longrightarrow> err v' \<noteq> None"
  by (cases n) (auto simp: Let_def split: if_splits sum.splits option.splits
       dest: checkDashbase_sticky checkAutoIncrement_sticky)

lemma Accept_generic:
  "Accept env v n =
     (case Enter env v n of
        Inl p \<Rightarrow> Inl p
      | Inr (skipChildren, v1) \<Rightarrow>
          if skipChildren then Leave env v1 n
          else (case AcceptList env v1 (children n) of
                  Inl p \<Rightarrow> Inl p
                | Inr (cs', ok, v2) \<Rightarrow>
                    if \<not> ok then Inr (withChildren n cs', False, v2)
                    else Leave env v2 (withChildren n cs')))"
proof (cases n)
  case (Limit Count Offset)
  then show ?thesis
    by (cases Count; cases Offset)
       (auto simp del: Leave.simps split: sum.splits prod.splits)
qed (auto simp del: Leave.simps split: sum.splits prod.splits)

lemma children_size: "c \<in> set (children n) \<Longrightarrow> size c < size n"
  by (cases n) (auto simp: less_Suc_eq_le size_list_estimation' split: option.splits)

lemma isAggregate_withChildren: "isAggregate (withChildren n cs) = isAggregate n"
  by (cases n) auto

lemma AcceptList_invariant_step:
  assumes IH: "\<And>c v c' ok v'. c \<in> set cs \<Longrightarrow> err v = None \<Longrightarrow> Accept env v c = Inr (c', ok, v')
                  \<Longrightarrow> inv_result v ok v'"
  shows "err v = None \<Longrightarrow> AcceptList env v cs = Inr (cs', ok, v') \<Longrightarrow> inv_result v ok v'"
  using IH
proof (induction cs arbitrary: v cs' ok v')
  case Nil
  then show ?case by (simp add: inv_result_def)
next
  case (Cons c cs)
  from Cons.prems(2) obtain c1 ok1 v1 where A: "Accept env v c = Inr (c1, ok1, v1)"
    by (auto split: sum.splits)
  have I1: "inv_result v ok1 v1"
    using Cons.prems(3)[OF _ Cons.prems(1) A] by simp
  show ?case
  proof (cases ok1)
    case False
    with Cons.prems(2) A I1 show ?thesis by simp
  next
    case True
    with Cons.prems(2) A obtain cs1 where L: "AcceptList env v1 cs = Inr (cs1, ok, v')"
      by (auto split: sum.splits)
    from True I1 have "err v1 = None" by (simp add: inv_result_def)
    then have "inv_result v1 ok v'"
      by (rule Cons.IH[OF _ L]) (rule Cons.prems(3), simp_all)
    with I1 True show ?thesis by (auto simp: inv_result_def)
  qed
qed

lemma Accept_invariant:
  "err v = None \<Longrightarrow> Accept env v n = Inr (n', ok, v') \<Longrightarrow> inv_result v ok v'"
proof (induction n arbitrary: v n' ok v' rule: measure_induct_rule[where f = size])
  case (less n)
  from less.prems(2) obtain skip v1 where E: "Enter env v n = Inr (skip, v1)"
    by (subst (asm) Accept_generic) (auto split: sum.splits)
  note E1 = Enter_inPrepare[OF E] Enter_skip[OF E less.prems(1)]
  show ?case
  proof (cases skip)
    case True
    with less.prems(2) E have L: "Leave env v1 n = Inr (n', ok, v')"
      by (subst (asm) Accept_generic) simp
    from Leave_ok[OF L] Leave_inPrepare[OF L] Leave_sticky[OF L] E1 True show ?thesis
      by (auto simp: inv_result_def)
  next
    case False
    with E have E': "Enter env v n = Inr (False, v1)" by simp
    from False E1 have e1: "err v1 = None" by simp
    from less.prems(2) E' obtain cs' ok1 v2 where A: "AcceptList env v1 (children n) = Inr (cs', ok1, v2)"
      by (subst (asm) Accept_generic) (auto split: sum.splits)
    have I1: "inv_result v1 ok1 v2"
      by (rule AcceptList_invariant_step[OF _ e1 A]) (rule less.IH[OF children_size])
    show ?thesis
    proof (cases ok1)
      case True
      with less.prems(2) E' A have L: "Leave env v2 (withChildren n cs') = Inr (n', ok, v')"
        by (subst (asm) Accept_generic) simp
      from Leave_ok[OF L] Leave_inPrepare[OF L] Leave_inAggregate[OF L] I1 E1 True
        Enter_inAggregate[OF E'] Enter_aggregate_not_inside[OF E']
      show ?thesis by (auto simp: inv_result_def isAggregate_withChildren)
    next
      case f: False
      with less.prems(2) E' A I1 E1 show ?thesis
        by (subst (asm) Accept_generic) (auto simp: inv_result_def)
    qed
  qed
qed

subsection \<open>Validating twice\<close>

lemma isParamMarker_SetValue: "isParamMarker (SetValue n x) = isParamMarker n"
  by (cases n) auto

lemma GetUint64_SetValue: "GetUint64 (SetValue n x) = x \<or> (SetValue n x = n \<and> GetUint64 n = 0)"
  by (cases n) (auto simp: GetUint64_def)

lemma Accept_SetValue:
  "Accept env v (SetValue n x) =
     (case Accept env v n of Inl p \<Rightarrow> Inl p | Inr (n', ok, v') \<Rightarrow> Inr (SetValue n' x, ok, v'))"
  by (cases n) (auto simp: Let_def split: sum.splits prod.splits if_splits option.splits)

lemma Leave_Limit_idem:
  assumes "Leave env v (Limit Count Offset) = Inr (n', ok, v')"
  shows "Leave env v n' = Inr (n', ok, v')"
proof (cases Count)
  case None
  with assms show ?thesis by auto
next
  case (Some c)
  with assms show ?thesis
    using GetUint64_SetValue[of c "MaxUint64 - (case Offset of None \<Rightarrow> 0 | Some off \<Rightarrow> GetUint64 off)"]
    by (auto simp: Let_def isParamMarker_SetValue split: if_splits)
qed

lemma Leave_same_node:
  "Leave env v n = Inr (n', ok, v') \<Longrightarrow> (\<And>Count Offset. n \<noteq> Limit Count Offset) \<Longrightarrow> n' = n"
  by (cases n) (auto simp: Let_def split: sum.splits if_splits)

lemma Leave_idem:
  assumes "Leave env v n = Inr (n', ok, v')"
  shows "Leave env v n' = Inr (n', ok, v')"
proof (cases "\<exists>Count Offset. n = Limit Count Offset")
  case True
  with assms show ?thesis by (auto dest: Leave_Limit_idem)
next
  case False
  with assms have "n' = n" by (auto dest: Leave_same_node)
  with assms show ?thesis by simp
qed

lemma Leave_shape:
  assumes "Leave env w m = Inr (n', ok, w')"
  shows "Enter env v n' = Enter env v m \<and> list_all2 revalued (children m) (children n')"
proof (cases "\<exists>Count Offset. m = Limit Count Offset")
  case True
  then obtain Count Offset where m: "m = Limit Count Offset" by blast
  with assms show ?thesis
    by (cases Count; cases Offset) (auto simp: Let_def revalued_def split: if_splits)
next
  case False
  with assms have "n' = m" by (auto dest: Leave_same_node)
  then show ?thesis by (simp add: list_all2_refl revalued_def)
qed

lemma withChildren_children: "withChildren n (children n) = n"
  by (cases n) (auto split: option.splits)

lemma AcceptList_length:
  "AcceptList env v cs = Inr (cs', ok, v') \<Longrightarrow> length cs' = length cs"
  by (induction cs arbitrary: v cs' ok v') (auto split: sum.splits if_splits)

lemma children_withChildren:
  "length cs = length (children n) \<Longrightarrow> children (withChildren n cs) = cs"
proof (cases n)
  case (Limit Count Offset)
  assume "length cs = length (children n)"
  with Limit show ?thesis
    by (cases Count; cases Offset; cases cs; cases "tl cs") auto
qed auto

lemma Enter_withChildren: "Enter env v (withChildren n cs) = Enter env v n"
  by (cases n) auto

lemma AcceptList_revalued:
  "list_all2 revalued cs cs2 \<Longrightarrow> AcceptList env v cs = Inr (cs, ok, v') \<Longrightarrow>
   AcceptList env v cs2 = Inr (cs2, ok, v')"
proof (induction cs cs2 arbitrary: v ok v' rule: list_all2_induct)
  case Nil
  then show ?case by simp
next
  case (Cons c cs c2 cs2)
  from Cons.prems obtain ok1 v1 where A: "Accept env v c = Inr (c, ok1, v1)"
    by (auto split: sum.splits if_splits)
  with Cons.hyps(1) have A2: "Accept env v c2 = Inr (c2, ok1, v1)"
    by (auto simp: revalued_def Accept_SetValue)
  show ?case
  proof (cases ok1)
    case False
    with Cons.prems A A2 show ?thesis by (auto split: sum.splits)
  next
    case True
    with Cons.prems A obtain ok2 where L: "AcceptList env v1 cs = Inr (cs, ok, v')"
      by (auto split: sum.splits)
    from Cons.IH[OF L] A2 True show ?thesis by simp
  qed
qed

lemma AcceptList_idem_step:
  assumes IH: "\<And>c v c' ok v'. c \<in> set cs \<Longrightarrow> Accept env v c = Inr (c', ok, v')
                  \<Longrightarrow> Accept env v c' = Inr (c', ok, v')"
  shows "AcceptList env v cs = Inr (cs', ok, v') \<Longrightarrow> AcceptList env v cs' = Inr (cs', ok, v')"
  using IH
proof (induction cs arbitrary: v cs' ok v')
  case Nil
  then show ?case by simp
next
  case (Cons c cs)
  from Cons.prems(1) obtain c1 ok1 v1 where A: "Accept env v c = Inr (c1, ok1, v1)"
    by (auto split: sum.splits)
  have A1: "Accept env v c1 = Inr (c1, ok1, v1)"
    using Cons.prems(2)[OF _ A] by simp
  show ?case
  proof (cases ok1)
    case False
    with Cons.prems(1) A A1 show ?thesis by auto
  next
    case True
    with Cons.prems(1) A obtain cs1 where L: "AcceptList env v1 cs = Inr (cs1, ok, v')"
      and cs': "cs' = c1 # cs1"
      by (auto split: sum.splits)
    have "AcceptList env v1 cs1 = Inr (cs1, ok, v')"
      by (rule Cons.IH[OF L]) (rule Cons.prems(2), simp_all)
    with A1 True cs' show ?thesis by simp
  qed
qed

lemma Accept_idem:
  "Accept env v n = Inr (n', ok, v') \<Longrightarrow> Accept env v n' = Inr (n', ok, v')"
proof (induction n arbitrary: v n' ok v' rule: measure_induct_rule[where f = size])
  case (less n)
  from less.prems obtain skip v1 where E: "Enter env v n = Inr (skip, v1)"
    by (subst (asm) Accept_generic) (auto split: sum.splits)
  show ?case
  proof (cases skip)
    case True
    with less.prems E have L: "Leave env v1 n = Inr (n', ok, v')"
      by (subst (asm) Accept_generic) simp
    from Leave_shape[OF L, where v = v] E True have "Enter env v n' = Inr (True, v1)" by simp
    with Leave_idem[OF L] show ?thesis
      by (subst Accept_generic) simp
  next
    case False
    with E have E': "Enter env v n = Inr (False, v1)" by simp
    from less.prems E' obtain cs' ok1 v2 where A: "AcceptList env v1 (children n) = Inr (cs', ok1, v2)"
      by (subst (asm) Accept_generic) (auto split: sum.splits)
    have A': "AcceptList env v1 cs' = Inr (cs', ok1, v2)"
      by (rule AcceptList_idem_step[OF _ A]) (rule less.IH[OF children_size])
    let ?m = "withChildren n cs'"
    have ch: "children ?m = cs'"
      using AcceptList_length[OF A] by (simp add: children_withChildren)
    show ?thesis
    proof (cases ok1)
      case f: False
      with less.prems E' A have "n' = ?m" "ok = False" "v' = v2"
        by (subst (asm) Accept_generic, simp)+
      with E' A' ch f show ?thesis
        by (subst Accept_generic) (simp add: Enter_withChildren withChildren_children[of ?m, unfolded ch])
    next
      case True
      with less.prems E' A have L: "Leave env v2 ?m = Inr (n', ok, v')"
        by (subst (asm) Accept_generic) simp
      from Leave_shape[OF L, where v = v] E' have E2: "Enter env v n' = Inr (False, v1)"
        and R: "list_all2 revalued cs' (children n')"
        by (simp_all add: Enter_withChildren ch)
      from AcceptList_revalued[OF R A'] have "AcceptList env v1 (children n') = Inr (children n', ok1, v2)" .
      with E2 True Leave_idem[OF L] show ?thesis
        by (subst Accept_generic) (simp add: withChildren_children)
    qed
  qed
qed

lemma Validate_idem:
  "Validate env n p = Inr (e, n') \<Longrightarrow> Validate env n' p = Inr (e, n')"
  by (auto simp: Validate_def split: sum.splits dest: Accept_idem)

text \<open>
  C7. When \<open>Validate\<close> returns success on a tree, leaving the tree \<open>n'\<close> (the tree with
  its \<^verbatim>\<open>Limit\<close> counts clamped), a second \<open>Validate\<close> on \<open>n'\<close> with the same flag
  returns success again and leaves \<open>n'\<close> as it is. Each call starts from
  \<open>newValidator\<close>, so nothing is carried over.
\<close>

theorem Validate_twice:
  "Validate env n inPrep = Inr (None, n') \<Longrightarrow> Validate env n' inPrep = Inr (None, n')"
  by (rule Validate_idem)

theorem Validate_twice_witness:
  "Validate exampleEnv
     (OtherNode [Limit (Some (ValueExpr (KindUint64 18446744073709551615)))
                   (Some (ValueExpr (KindUint64 10)))]) False =
     Inr (None, OtherNode [Limit (Some (ValueExpr (KindUint64 18446744073709551605)))
                             (Some (ValueExpr (KindUint64 10)))])
   \<and> Validate exampleEnv
     (OtherNode [Limit (Some (ValueExpr (KindUint64 18446744073709551605)))
                   (Some (ValueExpr (KindUint64 10)))]) False =
     Inr (None, OtherNode [Limit (Some (ValueExpr (KindUint64 18446744073709551605)))
                             (Some (ValueExpr (KindUint64 10)))])"
proof -
  have first: "Validate exampleEnv
     (OtherNode [Limit (Some (ValueExpr (KindUint64 18446744073709551615)))
                   (Some (ValueExpr (KindUint64 10)))]) False =
     Inr (None, OtherNode [Limit (Some (ValueExpr (KindUint64 18446744073709551605)))
                             (Some (ValueExpr (KindUint64 10)))])"
    by (simp add: Validate_def newValidator_def GetUint64_def MaxUint64_def)
  from first Validate_twice [OF first] show ?thesis
    by (rule conjI)
qed

subsection \<open>Where an expression-level error comes from\<close>

lemma containsAggregate_generic:
  "containsAggregate n = (isAggregate n \<or> list_ex containsAggregate (children n))"
  by (cases n) (auto split: option.splits)

lemma nestedAggregate_generic:
  "nestedAggregate n = (if isAggregate n then list_ex containsAggregate (children n)
                        else list_ex nestedAggregate (children n))"
  by (cases n) (auto split: option.splits)

lemma hasParamMarker_generic:
  "hasParamMarker n = (isParamMarker n \<or> list_ex hasParamMarker (children n))"
  by (cases n) (auto split: option.splits)

lemma noDDL_generic:
  "noDDL n = (\<not> isDDL n \<and> list_all noDDL (children n))"
  by (cases n) (auto split: option.splits)

lemma checkDuplicateColumnName_exprError:
  "checkDuplicateColumnName ks = Some e \<Longrightarrow> \<not> exprError e"
  by (induction ks) (auto split: option.splits)

lemma checkFieldLengthLimitation_exprError:
  "checkFieldLengthLimitation env c = Inr (Some e) \<Longrightarrow> \<not> exprError e"
  by (auto simp: checkFieldLengthLimitation_def Let_def split: option.splits if_splits)

lemma checkCreateTableGrammar_cols_exprError:
  "checkCreateTableGrammar_cols env cols k = Return e \<Longrightarrow> \<not> exprError e"
  by (induction cols arbitrary: k)
     (auto simp: Let_def split: sum.splits option.splits if_splits dest: checkFieldLengthLimitation_exprError)

lemma checkCreateTableGrammar_constraints_exprError:
  "checkCreateTableGrammar_constraints cs k = Return e \<Longrightarrow> \<not> exprError e"
  by (induction cs arbitrary: k)
     (auto split: option.splits if_splits dest: checkDuplicateColumnName_exprError)

lemma checkCreateTableGrammar_exprError:
  "checkCreateTableGrammar env v stmt = Inr v' \<Longrightarrow> err v' = Some e \<Longrightarrow> exprError e \<Longrightarrow> err v = Some e"
  by (auto simp: checkCreateTableGrammar_def split: if_splits flow.splits
       dest: checkCreateTableGrammar_cols_exprError checkCreateTableGrammar_constraints_exprError)

lemma checkCreateIndexGrammar_exprError:
  "err (checkCreateIndexGrammar v stmt) = Some e \<Longrightarrow> \<not> exprError e"
  by (auto simp: checkCreateIndexGrammar_def dest: checkDuplicateColumnName_exprError)

lemma checkAlterTableGrammar_specs_exprError:
  "checkAlterTableGrammar_specs env v specs = Inr v' \<Longrightarrow> err v' = Some e \<Longrightarrow> exprError e \<Longrightarrow> err v = Some e"
proof (induction specs arbitrary: v)
  case Nil
  then show ?case by simp
next
  case (Cons spec specs)
  from Cons.prems show ?case
    by (auto simp: Let_def split: if_splits option.splits sum.splits
        dest!: Cons.IH dest: checkFieldLengthLimitation_exprError checkDuplicateColumnName_exprError)
qed

lemma checkDashbase_options_exprError:
  "checkDashbase_options c ops k = Return e \<Longrightarrow> \<not> exprError e"
  by (induction ops arbitrary: k) (auto split: option.splits if_splits)

lemma checkDashbase_cols_exprError:
  "checkDashbase_cols cols k = Return e \<Longrightarrow> \<not> exprError e"
  by (induction cols arbitrary: k)
     (auto split: flow.splits dest: checkDashbase_options_exprError)

lemma checkDashbase_column_exprError:
  "checkDashbase_column cols key want e0 = Return e \<Longrightarrow> e = e0"
  by (induction cols) (auto split: option.splits if_splits)

lemma checkDashbase_constraints_exprError:
  "checkDashbase_constraints cols cs k = Return e \<Longrightarrow> \<not> exprError e"
  by (induction cs arbitrary: k)
     (auto split: flow.splits if_splits dest: checkDashbase_column_exprError)

lemma checkDashbase_exprError:
  "checkDashbase env v stmt = Inr v' \<Longrightarrow> err v' = Some e \<Longrightarrow> exprError e \<Longrightarrow> err v = Some e"
  by (auto simp: checkDashbase_def split: if_splits flow.splits option.splits
       dest: checkDashbase_cols_exprError checkDashbase_constraints_exprError)

lemma checkAutoIncrementOp_exprError:
  "checkAutoIncrementOp c i = Inr (ok, Some e) \<Longrightarrow> e = ErrInvalidDefaultValue (str_O (cn_Name (cd_Name c)))"
  by (auto simp: checkAutoIncrementOp_def Let_def split: if_splits sum.splits option.splits bool.splits)

lemma checkAutoIncrement_options_exprError:
  "checkAutoIncrement_options c i ops s = Return e \<Longrightarrow> \<not> exprError e"
  by (induction c i ops s rule: checkAutoIncrement_options.induct)
     (auto split: sum.splits option.splits prod.splits dest: checkAutoIncrementOp_exprError)

lemma checkAutoIncrement_cols_exprError:
  "checkAutoIncrement_cols cols s = Return e \<Longrightarrow> \<not> exprError e"
  by (induction cols s rule: checkAutoIncrement_cols.induct)
     (auto split: flow.splits prod.splits if_splits dest: checkAutoIncrement_options_exprError)

lemma checkAutoIncrement_exprError:
  "checkAutoIncrement env v stmt = Inr v' \<Longrightarrow> err v' = Some e \<Longrightarrow> exprError e \<Longrightarrow> err v = Some e"
  by (auto simp: checkAutoIncrement_def Let_def
       split: if_splits flow.splits option.splits sum.splits prod.splits
       dest: checkAutoIncrement_cols_exprError)

lemma Enter_exprError:
  "Enter env v n = Inr (skip, v1) \<Longrightarrow> err v1 = Some e \<Longrightarrow> exprError e \<Longrightarrow>
     err v = Some e \<or> (e = ErrInvalidGroupFuncUse \<and> isAggregate n \<and> inAggregate v)"
  by (cases n)
     (auto simp: checkAlterTableGrammar_def Let_def split: if_splits sum.splits
       dest: checkCreateTableGrammar_exprError checkCreateIndexGrammar_exprError
         checkAlterTableGrammar_specs_exprError)

lemma Leave_exprError:
  "Leave env v n = Inr (n', ok, v') \<Longrightarrow> err v' = Some e \<Longrightarrow> exprError e \<Longrightarrow>
     err v = Some e \<or> (e = ErrSyntax unexpectedParamMarker \<and> isParamMarker n \<and> \<not> inPrepare v)"
  by (cases n)
     (auto simp: Let_def split: if_splits sum.splits option.splits
       dest: checkDashbase_exprError checkAutoIncrement_exprError)

lemma aggregateInside_generic:
  "aggregateInside f n =
     (if isAggregate n then f \<or> list_ex (aggregateInside True) (children n)
      else list_ex (aggregateInside f) (children n))"
proof -
  have 1: "aggregateInside True = containsAggregate" and 2: "aggregateInside False = nestedAggregate"
    by (auto simp: aggregateInside_def fun_eq_iff)
  show ?thesis
    by (cases f) (auto simp: 1 2 containsAggregate_generic[of n] nestedAggregate_generic[of n])
qed

lemma isParamMarker_withChildren: "isParamMarker (withChildren n cs) = isParamMarker n"
  by (cases n) auto

lemma AcceptList_exprError_step:
  assumes IH: "\<And>c v c' ok v'. c \<in> set cs \<Longrightarrow> err v = None \<Longrightarrow> Accept env v c = Inr (c', ok, v')
                  \<Longrightarrow> err v' = Some e \<Longrightarrow>
                  exprErrorCause v e (aggregateInside (inAggregate v) c) (hasParamMarker c)"
  shows "err v = None \<Longrightarrow> AcceptList env v cs = Inr (cs', ok, v') \<Longrightarrow> err v' = Some e \<Longrightarrow>
         exprErrorCause v e (list_ex (aggregateInside (inAggregate v)) cs) (list_ex hasParamMarker cs)"
  using IH
proof (induction cs arbitrary: v cs' ok v')
  case Nil
  then show ?case by simp
next
  case (Cons c cs)
  from Cons.prems(2) obtain c1 ok1 v1 where A: "Accept env v c = Inr (c1, ok1, v1)"
    by (auto split: sum.splits)
  note I1 = Accept_invariant[OF Cons.prems(1) A, unfolded inv_result_def]
  show ?case
  proof (cases ok1)
    case False
    with Cons.prems(2) A have "v' = v1" by simp
    with Cons.prems(4)[OF _ Cons.prems(1) A] Cons.prems(3) show ?thesis
      by (auto simp: exprErrorCause_def)
  next
    case True
    with Cons.prems(2) A obtain cs1 where L: "AcceptList env v1 cs = Inr (cs1, ok, v')"
      by (auto split: sum.splits)
    from True I1 have e1: "err v1 = None" by simp
    have "exprErrorCause v1 e (list_ex (aggregateInside (inAggregate v1)) cs) (list_ex hasParamMarker cs)"
      by (rule Cons.IH[OF e1 L Cons.prems(3)]) (rule Cons.prems(4), simp_all)
    with I1 True show ?thesis by (auto simp: exprErrorCause_def)
  qed
qed

lemma Accept_exprError:
  "err v = None \<Longrightarrow> Accept env v n = Inr (n', ok, v') \<Longrightarrow> err v' = Some e \<Longrightarrow> exprError e \<Longrightarrow>
     exprErrorCause v e (aggregateInside (inAggregate v) n) (hasParamMarker n)"
proof (induction n arbitrary: v n' ok v' rule: measure_induct_rule[where f = size])
  case (less n)
  from less.prems(2) obtain skip v1 where E: "Enter env v n = Inr (skip, v1)"
    by (subst (asm) Accept_generic) (auto split: sum.splits)
  note E1 = Enter_inPrepare[OF E] Enter_skip[OF E less.prems(1)]
  show ?case
  proof (cases skip)
    case True
    with less.prems(2) E have L: "Leave env v1 n = Inr (n', ok, v')"
      by (subst (asm) Accept_generic) simp
    from Leave_exprError[OF L less.prems(3,4)] Enter_exprError[OF E _ less.prems(4)] less.prems(1) E1
    show ?thesis
      by (subst aggregateInside_generic, subst hasParamMarker_generic)
         (auto simp: exprErrorCause_def)
  next
    case False
    with E have E': "Enter env v n = Inr (False, v1)" by simp
    from False E1 have e1: "err v1 = None" by simp
    from less.prems(2) E' obtain cs' ok1 v2 where A: "AcceptList env v1 (children n) = Inr (cs', ok1, v2)"
      by (subst (asm) Accept_generic) (auto split: sum.splits)
    note I1 = AcceptList_invariant_step[OF Accept_invariant e1 A, unfolded inv_result_def]
    note F = Enter_inAggregate[OF E'] Enter_aggregate_not_inside[OF E']
    show ?thesis
    proof (cases ok1)
      case True
      with less.prems(2) E' A have L: "Leave env v2 (withChildren n cs') = Inr (n', ok, v')"
        by (subst (asm) Accept_generic) simp
      from Leave_exprError[OF L less.prems(3,4)] I1 True E1 show ?thesis
        by (subst hasParamMarker_generic)
           (auto simp: exprErrorCause_def isParamMarker_withChildren)
    next
      case f: False
      with less.prems(2) E' A have "v' = v2"
        by (subst (asm) Accept_generic) simp
      with less.prems(3) have e2: "err v2 = Some e" by simp
      have "exprErrorCause v1 e (list_ex (aggregateInside (inAggregate v1)) (children n))
              (list_ex hasParamMarker (children n))"
        by (rule AcceptList_exprError_step[OF _ e1 A e2])
           (rule less.IH[OF children_size _ _ _ less.prems(4)])
      with F E1 show ?thesis
        by (subst aggregateInside_generic, subst hasParamMarker_generic)
           (auto simp: exprErrorCause_def)
    qed
  qed
qed

subsection \<open>Nested aggregates are found\<close>

lemma Enter_noDDL:
  "\<not> isDDL n \<Longrightarrow>
   Enter env v n =
     (if isAggregate n
      then (if inAggregate v then Inr (True, v\<lparr>err := Some ErrInvalidGroupFuncUse\<rparr>)
            else Inr (False, v\<lparr>inAggregate := True\<rparr>))
      else Inr (False, v))"
  by (cases n) auto

lemma Leave_plain:
  "\<not> isDDL n \<Longrightarrow> inPrepare v \<or> \<not> isParamMarker n \<Longrightarrow>
   \<exists>n'. Leave env v n =
     Inr (n', err v = None, if isAggregate n then v\<lparr>inAggregate := False\<rparr> else v)"
  by (cases n) (auto simp: Let_def split: option.splits)

lemma isDDL_withChildren: "isDDL (withChildren n cs) = isDDL n"
  by (cases n) auto

lemma AcceptList_nesting_step:
  assumes IH: "\<And>c v. c \<in> set cs \<Longrightarrow> err v = None \<Longrightarrow> noDDL c \<Longrightarrow> inPrepare v \<or> \<not> hasParamMarker c
                  \<Longrightarrow> nestingOutcome v (aggregateInside (inAggregate v) c) (outcome (Accept env v c))"
  shows "err v = None \<Longrightarrow> list_all noDDL cs \<Longrightarrow> inPrepare v \<or> \<not> list_ex hasParamMarker cs \<Longrightarrow>
         nestingOutcome v (list_ex (aggregateInside (inAggregate v)) cs) (outcome (AcceptList env v cs))"
  using IH
proof (induction cs arbitrary: v)
  case Nil
  then show ?case by (simp add: nestingOutcome_def outcome_def)
next
  case (Cons c cs)
  have N: "nestingOutcome v (aggregateInside (inAggregate v) c) (outcome (Accept env v c))"
    using Cons.prems by auto
  then obtain c1 ok1 v1 where A: "Accept env v c = Inr (c1, ok1, v1)"
    by (auto simp: nestingOutcome_def outcome_def split: sum.splits)
  note I1 = Accept_invariant[OF Cons.prems(1) A, unfolded inv_result_def]
  show ?case
  proof (cases ok1)
    case False
    with N A show ?thesis
      by (auto simp: nestingOutcome_def outcome_def)
  next
    case True
    with I1 have e1: "err v1 = None" by simp
    have "nestingOutcome v1 (list_ex (aggregateInside (inAggregate v1)) cs) (outcome (AcceptList env v1 cs))"
      using Cons.prems I1 by (intro Cons.IH[OF e1]) auto
    with N A True I1 show ?thesis
      by (auto simp: nestingOutcome_def outcome_def split: sum.splits)
  qed
qed

lemma Accept_nesting:
  "err v = None \<Longrightarrow> noDDL n \<Longrightarrow> inPrepare v \<or> \<not> hasParamMarker n \<Longrightarrow>
   nestingOutcome v (aggregateInside (inAggregate v) n) (outcome (Accept env v n))"
proof (induction n arbitrary: v rule: measure_induct_rule[where f = size])
  case (less n)
  from less.prems(2) have nd: "\<not> isDDL n" and ndc: "list_all noDDL (children n)"
    by (subst (asm) noDDL_generic, simp)+
  from less.prems(3) have pm: "inPrepare v \<or> \<not> isParamMarker n"
    and pmc: "inPrepare v \<or> \<not> list_ex hasParamMarker (children n)"
    by (subst (asm) hasParamMarker_generic, auto)+
  show ?case
  proof (cases "isAggregate n \<and> inAggregate v")
    case True
    then have E: "Enter env v n = Inr (True, v\<lparr>err := Some ErrInvalidGroupFuncUse\<rparr>)"
      by (simp add: Enter_noDDL[OF nd])
    from Leave_plain[OF nd, of "v\<lparr>err := Some ErrInvalidGroupFuncUse\<rparr>" env] pm
    obtain n' where "Leave env (v\<lparr>err := Some ErrInvalidGroupFuncUse\<rparr>) n =
        Inr (n', False, if isAggregate n then v\<lparr>err := Some ErrInvalidGroupFuncUse, inAggregate := False\<rparr>
                        else v\<lparr>err := Some ErrInvalidGroupFuncUse\<rparr>)"
      by auto
    with E True show ?thesis
      by (subst Accept_generic, subst aggregateInside_generic)
         (simp add: nestingOutcome_def outcome_def)
  next
    case False
    define v1 where "v1 = (if isAggregate n then v\<lparr>inAggregate := True\<rparr> else v)"
    from False have E: "Enter env v n = Inr (False, v1)"
      by (auto simp: Enter_noDDL[OF nd] v1_def)
    have e1: "err v1 = None" and p1: "inPrepare v1 = inPrepare v"
      using less.prems(1) by (auto simp: v1_def)
    have L: "nestingOutcome v1 (list_ex (aggregateInside (inAggregate v1)) (children n))
               (outcome (AcceptList env v1 (children n)))"
      using ndc pmc p1
      by (intro AcceptList_nesting_step[OF _ e1]) (auto intro: less.IH[OF children_size])
    then obtain cs' ok1 v2 where A: "AcceptList env v1 (children n) = Inr (cs', ok1, v2)"
      by (auto simp: nestingOutcome_def outcome_def split: sum.splits)
    note I1 = AcceptList_invariant_step[OF Accept_invariant e1 A, unfolded inv_result_def]
    have agg: "aggregateInside (inAggregate v) n = list_ex (aggregateInside (inAggregate v1)) (children n)"
      using False by (subst aggregateInside_generic) (auto simp: v1_def)
    show ?thesis
    proof (cases ok1)
      case f: False
      with L A E agg show ?thesis
        by (subst Accept_generic) (auto simp: nestingOutcome_def outcome_def)
    next
      case True
      with I1 have e2: "err v2 = None" and p2: "inPrepare v2 = inPrepare v" using p1 by auto
      from Leave_plain[of "withChildren n cs'" v2 env] nd pm p2
      obtain n' where "Leave env v2 (withChildren n cs') =
          Inr (n', err v2 = None, if isAggregate n then v2\<lparr>inAggregate := False\<rparr> else v2)"
        by (auto simp: isDDL_withChildren isParamMarker_withChildren isAggregate_withChildren)
      with L A E agg True e2 show ?thesis
        by (subst Accept_generic) (auto simp: nestingOutcome_def outcome_def)
    qed
  qed
qed

subsection \<open>The checks do not read the prepare flag\<close>

lemma checkCreateTableGrammar_inPrepare:
  "checkCreateTableGrammar env (v\<lparr>inPrepare := b\<rparr>) stmt =
     (case checkCreateTableGrammar env v stmt of Inl p \<Rightarrow> Inl p | Inr v' \<Rightarrow> Inr (v'\<lparr>inPrepare := b\<rparr>))"
  by (simp add: checkCreateTableGrammar_def split: flow.split)

lemma checkDashbase_inPrepare:
  "checkDashbase env (v\<lparr>inPrepare := b\<rparr>) stmt =
     (case checkDashbase env v stmt of Inl p \<Rightarrow> Inl p | Inr v' \<Rightarrow> Inr (v'\<lparr>inPrepare := b\<rparr>))"
  by (simp add: checkDashbase_def split: flow.split option.split)

lemma checkAutoIncrement_inPrepare:
  "checkAutoIncrement env (v\<lparr>inPrepare := b\<rparr>) stmt =
     (case checkAutoIncrement env v stmt of Inl p \<Rightarrow> Inl p | Inr v' \<Rightarrow> Inr (v'\<lparr>inPrepare := b\<rparr>))"
  by (simp add: checkAutoIncrement_def Let_def split: flow.split option.split sum.split prod.split)

lemma checkAlterTableGrammar_specs_inPrepare:
  "checkAlterTableGrammar_specs env (v\<lparr>inPrepare := b\<rparr>) specs =
     (case checkAlterTableGrammar_specs env v specs of Inl p \<Rightarrow> Inl p | Inr v' \<Rightarrow> Inr (v'\<lparr>inPrepare := b\<rparr>))"
proof (induction specs arbitrary: v)
  case Nil
  then show ?case by simp
next
  case (Cons spec specs)
  have sw: "\<And>x. v\<lparr>inPrepare := b, err := x\<rparr> = v\<lparr>err := x, inPrepare := b\<rparr>" by simp
  show ?case
    by (auto simp: Let_def sw Cons.IH split: option.split sum.split)
qed

lemma Enter_inPrepare_upd:
  "Enter env (v\<lparr>inPrepare := b\<rparr>) n =
     (case Enter env v n of Inl p \<Rightarrow> Inl p | Inr (skip, v1) \<Rightarrow> Inr (skip, v1\<lparr>inPrepare := b\<rparr>))"
  by (cases n)
     (simp_all add: checkCreateTableGrammar_inPrepare checkAlterTableGrammar_specs_inPrepare
        checkCreateIndexGrammar_def checkAlterTableGrammar_def Let_def split: sum.split)

lemma Leave_inPrepare_upd:
  "\<not> isParamMarker n \<Longrightarrow>
   Leave env (v\<lparr>inPrepare := b\<rparr>) n =
     (case Leave env v n of Inl p \<Rightarrow> Inl p | Inr (n', ok, v') \<Rightarrow> Inr (n', ok, v'\<lparr>inPrepare := b\<rparr>))"
  by (cases n)
     (simp_all add: checkDashbase_inPrepare checkAutoIncrement_inPrepare Let_def
        split: sum.split option.split)

subsection \<open>Parameter markers outside prepare mode\<close>

lemma Leave_param:
  "isParamMarker n \<Longrightarrow> \<not> inPrepare v \<Longrightarrow>
   Leave env v n = Inr (n, False, v\<lparr>err := Some (ErrSyntax unexpectedParamMarker)\<rparr>)"
  by (cases n) auto

lemma AcceptList_param_step:
  assumes IH: "\<And>c v c' v'. c \<in> set cs \<Longrightarrow> err v = None \<Longrightarrow> inPrepare v \<Longrightarrow>
                  Accept env v c = Inr (c', True, v') \<Longrightarrow>
                  paramOutcome (hasParamMarker c) (Accept env (v\<lparr>inPrepare := False\<rparr>) c) c' v'"
  shows "err v = None \<Longrightarrow> inPrepare v \<Longrightarrow> AcceptList env v cs = Inr (cs', True, v') \<Longrightarrow>
         paramOutcome (list_ex hasParamMarker cs) (AcceptList env (v\<lparr>inPrepare := False\<rparr>) cs) cs' v'"
  using IH
proof (induction cs arbitrary: v cs' v')
  case Nil
  then show ?case by (auto simp: paramOutcome_def)
next
  case (Cons c cs)
  from Cons.prems(3) obtain c1 v1 cs1 where A: "Accept env v c = Inr (c1, True, v1)"
    and L: "AcceptList env v1 cs = Inr (cs1, True, v')" and cs': "cs' = c1 # cs1"
    by (auto split: sum.splits if_splits)
  note I1 = Accept_invariant[OF Cons.prems(1) A, unfolded inv_result_def]
  have P: "paramOutcome (hasParamMarker c) (Accept env (v\<lparr>inPrepare := False\<rparr>) c) c1 v1"
    by (rule Cons.prems(4)[OF _ Cons.prems(1,2) A]) simp
  show ?case
  proof (cases "hasParamMarker c")
    case True
    with P show ?thesis by (auto simp: paramOutcome_def)
  next
    case False
    from I1 Cons.prems(2) have e1: "err v1 = None" and p1: "inPrepare v1" by auto
    have "paramOutcome (list_ex hasParamMarker cs) (AcceptList env (v1\<lparr>inPrepare := False\<rparr>) cs) cs1 v'"
      by (rule Cons.IH[OF e1 p1 L]) (rule Cons.prems(4), simp_all)
    with P False cs' show ?thesis by (auto simp: paramOutcome_def)
  qed
qed

lemma Accept_param:
  "err v = None \<Longrightarrow> inPrepare v \<Longrightarrow> Accept env v n = Inr (n', True, v') \<Longrightarrow>
   paramOutcome (hasParamMarker n) (Accept env (v\<lparr>inPrepare := False\<rparr>) n) n' v'"
proof (induction n arbitrary: v n' v' rule: measure_induct_rule[where f = size])
  case (less n)
  let ?w = "v\<lparr>inPrepare := False\<rparr>"
  from less.prems(3) obtain skip v1 where E: "Enter env v n = Inr (skip, v1)"
    by (subst (asm) Accept_generic) (auto split: sum.splits)
  note E1 = Enter_inPrepare[OF E] Enter_skip[OF E less.prems(1)]
  have ns: "\<not> skip"
  proof
    assume skip
    with less.prems(3) E have L: "Leave env v1 n = Inr (n', True, v')"
      by (subst (asm) Accept_generic) simp
    from Leave_ok[OF L] Leave_sticky[OF L] E1 \<open>skip\<close> show False by simp
  qed
  with E have E': "Enter env v n = Inr (False, v1)" by simp
  from ns E1 less.prems(2) have e1: "err v1 = None" and p1: "inPrepare v1" by simp_all
  from less.prems(3) E' obtain cs' ok1 v2 where A: "AcceptList env v1 (children n) = Inr (cs', ok1, v2)"
    by (subst (asm) Accept_generic) (auto split: sum.splits)
  with less.prems(3) E' have ok1: ok1
    by (subst (asm) Accept_generic) (auto split: if_splits)
  with less.prems(3) E' A have L: "Leave env v2 (withChildren n cs') = Inr (n', True, v')"
    by (subst (asm) Accept_generic) simp
  have Ew: "Enter env ?w n = Inr (False, v1\<lparr>inPrepare := False\<rparr>)"
    by (simp add: Enter_inPrepare_upd E')
  have P: "paramOutcome (list_ex hasParamMarker (children n))
             (AcceptList env (v1\<lparr>inPrepare := False\<rparr>) (children n)) cs' v2"
    by (rule AcceptList_param_step[OF _ e1 p1 A[unfolded ok1[THEN eqTrueI]]])
       (rule less.IH[OF children_size])
  show ?case
  proof (cases "list_ex hasParamMarker (children n)")
    case True
    with P Ew show ?thesis
      by (subst hasParamMarker_generic, subst Accept_generic)
         (auto simp: paramOutcome_def)
  next
    case False
    with P have Aw: "AcceptList env (v1\<lparr>inPrepare := False\<rparr>) (children n) =
        Inr (cs', True, v2\<lparr>inPrepare := False\<rparr>)"
      by (simp add: paramOutcome_def)
    show ?thesis
    proof (cases "isParamMarker n")
      case True
      then have "Leave env (v2\<lparr>inPrepare := False\<rparr>) (withChildren n cs') =
          Inr (withChildren n cs', False,
               v2\<lparr>inPrepare := False, err := Some (ErrSyntax unexpectedParamMarker)\<rparr>)"
        by (intro Leave_param) (simp_all add: isParamMarker_withChildren)
      with True Ew Aw show ?thesis
        by (subst hasParamMarker_generic, subst Accept_generic)
           (auto simp: paramOutcome_def)
    next
      case f: False
      then have "Leave env (v2\<lparr>inPrepare := False\<rparr>) (withChildren n cs') =
          Inr (n', True, v'\<lparr>inPrepare := False\<rparr>)"
        by (simp add: Leave_inPrepare_upd isParamMarker_withChildren L)
      with f False Ew Aw show ?thesis
        by (subst hasParamMarker_generic, subst Accept_generic)
           (auto simp: paramOutcome_def)
    qed
  qed
qed

subsection \<open>Aggregate nesting and parameter markers\<close>

lemma newValidator_simps [simp]:
  "err (newValidator p) = None" "inPrepare (newValidator p) = p"
  "inAggregate (newValidator p) = False"
  by (simp_all add: newValidator_def)

lemma newValidator_inPrepare: "(newValidator True)\<lparr>inPrepare := False\<rparr> = newValidator False"
  by (simp add: newValidator_def)

lemma Validate_nesting:
  assumes "noDDL n" and "inPrep \<or> \<not> hasParamMarker n"
  shows "\<exists>n'. Validate env n inPrep =
           Inr (if nestedAggregate n then Some ErrInvalidGroupFuncUse else None, n')"
proof -
  let ?v = "newValidator inPrep"
  have N: "nestingOutcome ?v (aggregateInside (inAggregate ?v) n) (outcome (Accept env ?v n))"
    using assms by (intro Accept_nesting) simp_all
  then obtain n' ok v' where A: "Accept env ?v n = Inr (n', ok, v')"
    by (auto simp: nestingOutcome_def outcome_def split: sum.splits)
  from Accept_invariant[OF _ A] have "ok = (err v' = None)"
    by (simp add: inv_result_def)
  with N A show ?thesis
    by (auto simp: nestingOutcome_def outcome_def aggregateInside_def Validate_def)
qed

lemma Validate_exprError:
  assumes "Validate env n inPrep = Inr (Some e, n')" and "exprError e"
  shows "(e = ErrInvalidGroupFuncUse \<and> nestedAggregate n)
         \<or> (e = ErrSyntax unexpectedParamMarker \<and> \<not> inPrep \<and> hasParamMarker n)"
proof -
  let ?v = "newValidator inPrep"
  from assms(1) obtain ok v' where A: "Accept env ?v n = Inr (n', ok, v')" and e: "err v' = Some e"
    by (auto simp: Validate_def split: sum.splits)
  from Accept_exprError[OF _ A e assms(2)] show ?thesis
    by (simp add: exprErrorCause_def aggregateInside_def)
qed

lemma Validate_param:
  assumes "hasParamMarker n" and "Validate env n True = Inr (None, n')"
  shows "\<exists>n''. Validate env n False = Inr (Some (ErrSyntax unexpectedParamMarker), n'')"
proof -
  let ?v = "newValidator True"
  from assms(2) obtain ok v' where A: "Accept env ?v n = Inr (n', ok, v')" and e: "err v' = None"
    by (auto simp: Validate_def split: sum.splits)
  from Accept_invariant[OF _ A] e have ok by (simp add: inv_result_def)
  with A have "Accept env ?v n = Inr (n', True, v')" by simp
  from Accept_param[OF _ _ this] assms(1) show ?thesis
    by (auto simp: paramOutcome_def newValidator_inPrepare Validate_def)
qed

text \<open>
  C8, as amended. In a tree without CREATE TABLE, CREATE INDEX or ALTER TABLE nodes in
  which an aggregate-function node occurs inside the argument subtree of another one,
  \<open>Validate\<close> returns the aggregate-nesting error when the call is in prepare mode or the
  tree has no parameter marker. On entering an aggregate node while the flag is set, the
  visit stores the error and returns without visiting the node's arguments, whatever they
  are. For any tree with no aggregate inside another one (sibling aggregates, say) that
  error is never returned, and such a tree of the first kind validates.
\<close>

theorem aggregate_nesting:
  "(noDDL n \<and> (inPrep \<or> \<not> hasParamMarker n) \<and> nestedAggregate n \<longrightarrow>
      (\<exists>n'. Validate env n inPrep = Inr (Some ErrInvalidGroupFuncUse, n')))
   \<and> (inAggregate v \<longrightarrow>
        Accept env v (AggregateFuncExpr d args) =
          Inr (AggregateFuncExpr d args, False,
               v\<lparr>err := Some ErrInvalidGroupFuncUse, inAggregate := False\<rparr>))
   \<and> (\<not> nestedAggregate n \<longrightarrow>
        (\<forall>n'. Validate env n inPrep \<noteq> Inr (Some ErrInvalidGroupFuncUse, n')))
   \<and> (noDDL n \<and> (inPrep \<or> \<not> hasParamMarker n) \<and> \<not> nestedAggregate n \<longrightarrow>
        (\<exists>n'. Validate env n inPrep = Inr (None, n')))"
proof (intro conjI impI allI)
  assume "noDDL n \<and> (inPrep \<or> \<not> hasParamMarker n) \<and> nestedAggregate n"
  with Validate_nesting[of n inPrep env]
  show "\<exists>n'. Validate env n inPrep = Inr (Some ErrInvalidGroupFuncUse, n')" by auto
next
  assume "inAggregate v"
  then show "Accept env v (AggregateFuncExpr d args) =
          Inr (AggregateFuncExpr d args, False,
               v\<lparr>err := Some ErrInvalidGroupFuncUse, inAggregate := False\<rparr>)"
    by simp
next
  fix n'
  assume "\<not> nestedAggregate n"
  with Validate_exprError[of env n inPrep ErrInvalidGroupFuncUse n']
  show "Validate env n inPrep \<noteq> Inr (Some ErrInvalidGroupFuncUse, n')" by auto
next
  assume "noDDL n \<and> (inPrep \<or> \<not> hasParamMarker n) \<and> \<not> nestedAggregate n"
  with Validate_nesting[of n inPrep env]
  show "\<exists>n'. Validate env n inPrep = Inr (None, n')" by auto
qed

theorem aggregate_nesting_witness:
  "nestedAggregate (OtherExpr KindNull
       [AggregateFuncExpr KindNull [OtherExpr KindNull [AggregateFuncExpr KindNull []]]])
   \<and> (\<exists>n'. Validate exampleEnv (OtherExpr KindNull
       [AggregateFuncExpr KindNull [OtherExpr KindNull [AggregateFuncExpr KindNull []]]]) False =
         Inr (Some ErrInvalidGroupFuncUse, n'))
   \<and> \<not> nestedAggregate (OtherExpr KindNull
       [AggregateFuncExpr KindNull [], AggregateFuncExpr KindNull []])
   \<and> (\<exists>n'. Validate exampleEnv (OtherExpr KindNull
       [AggregateFuncExpr KindNull [], AggregateFuncExpr KindNull []]) False = Inr (None, n'))"
  using aggregate_nesting [of "OtherExpr KindNull
       [AggregateFuncExpr KindNull [OtherExpr KindNull [AggregateFuncExpr KindNull []]]]"
       False exampleEnv "newValidator False" KindNull "[]"]
    aggregate_nesting [of "OtherExpr KindNull
       [AggregateFuncExpr KindNull [], AggregateFuncExpr KindNull []]"
       False exampleEnv "newValidator False" KindNull "[]"]
  by simp

theorem aggregate_nesting_counterexample:
  "nestedAggregate (AggregateFuncExpr KindNull
       [ParamMarkerExpr KindNull, AggregateFuncExpr KindNull []])
   \<and> Validate exampleEnv (AggregateFuncExpr KindNull
       [ParamMarkerExpr KindNull, AggregateFuncExpr KindNull []]) False =
     Inr (Some (ErrSyntax unexpectedParamMarker),
          AggregateFuncExpr KindNull [ParamMarkerExpr KindNull, AggregateFuncExpr KindNull []])"
  by (simp add: Validate_def newValidator_def)

text \<open>
  C9, as amended. For a tree that contains a parameter marker and validates in prepare
  mode, \<open>Validate\<close> outside prepare mode returns the syntax error "unexpected '?'"; and
  in prepare mode \<open>Validate\<close> never returns a syntax error, for any tree.
\<close>

theorem param_marker:
  "(hasParamMarker n \<and> Validate env n True = Inr (None, n') \<longrightarrow>
      (\<exists>n''. Validate env n False = Inr (Some (ErrSyntax unexpectedParamMarker), n'')))
   \<and> (\<forall>m n''. Validate env n True \<noteq> Inr (Some (ErrSyntax m), n''))"
proof (intro conjI impI allI)
  assume "hasParamMarker n \<and> Validate env n True = Inr (None, n')"
  then show "\<exists>n''. Validate env n False = Inr (Some (ErrSyntax unexpectedParamMarker), n'')"
    by (auto intro: Validate_param)
next
  fix m n''
  from Validate_exprError[of env n True "ErrSyntax m" n'']
  show "Validate env n True \<noteq> Inr (Some (ErrSyntax m), n'')" by auto
qed

theorem param_marker_witness:
  "hasParamMarker (OtherExpr KindNull [ValueExpr (KindInt64 1), ParamMarkerExpr KindNull])
   \<and> Validate exampleEnv (OtherExpr KindNull [ValueExpr (KindInt64 1), ParamMarkerExpr KindNull])
       True =
     Inr (None, OtherExpr KindNull [ValueExpr (KindInt64 1), ParamMarkerExpr KindNull])
   \<and> (\<exists>n''. Validate exampleEnv
         (OtherExpr KindNull [ValueExpr (KindInt64 1), ParamMarkerExpr KindNull]) False =
       Inr (Some (ErrSyntax unexpectedParamMarker), n''))"
proof -
  have 1: "hasParamMarker (OtherExpr KindNull [ValueExpr (KindInt64 1), ParamMarkerExpr KindNull])"
    by simp
  have 2: "Validate exampleEnv (OtherExpr KindNull [ValueExpr (KindInt64 1), ParamMarkerExpr KindNull])
       True =
     Inr (None, OtherExpr KindNull [ValueExpr (KindInt64 1), ParamMarkerExpr KindNull])"
    by (simp add: Validate_def newValidator_def)
  from 1 2 param_marker [of "OtherExpr KindNull [ValueExpr (KindInt64 1), ParamMarkerExpr KindNull]"
      exampleEnv "OtherExpr KindNull [ValueExpr (KindInt64 1), ParamMarkerExpr KindNull]"]
  show ?thesis by blast
qed

theorem param_marker_counterexample:
  "hasParamMarker (OtherNode
       [AggregateFuncExpr KindNull [AggregateFuncExpr KindNull []], ParamMarkerExpr KindNull])
   \<and> Validate exampleEnv (OtherNode
       [AggregateFuncExpr KindNull [AggregateFuncExpr KindNull []], ParamMarkerExpr KindNull]) False =
     Inr (Some ErrInvalidGroupFuncUse,
          OtherNode [AggregateFuncExpr KindNull [AggregateFuncExpr KindNull []],
                     ParamMarkerExpr KindNull])"
  by (simp add: Validate_def newValidator_def)

subsection \<open>The first failing node\<close>

lemmas checker_defs =
  Validate_def newValidator_def checkCreateTableGrammar_def checkCreateIndexGrammar_def
  checkAlterTableGrammar_def checkDashbase_def checkAutoIncrement_def checkAutoIncrementOp_def
  checkFieldLengthLimitation_def isEngineDashbase_def getStmtTableOption_def indexConstraintTp_def keyConstraintTp_def
  uniqueConstraintTp_def autoIncrementTp_def MaxUint32_def MaxUint64_def GetUint64_def
  exampleEnv_def Let_def

lemmas mk_defs = mkName_def mkColumn_def mkOption_def mkDefault_def mkConstraint_def mkTable_def

lemma AcceptList_stops:
  "AcceptList env v xs = Inr (xs', False, v') \<Longrightarrow>
   AcceptList env v (xs @ ys) = Inr (xs' @ ys, False, v')"
  by (induction xs arbitrary: v xs') (auto split: sum.splits if_splits)

lemma Accept_child_fails:
  "Enter env v n = Inr (False, v1) \<Longrightarrow> AcceptList env v1 (children n) = Inr (cs', False, v2) \<Longrightarrow>
   Accept env v n = Inr (withChildren n cs', False, v2)"
  by (subst Accept_generic) simp

lemma Accept_CreateTableStmt:
  "Accept env v (CreateTableStmt stmt) =
     (case checkCreateTableGrammar env v stmt of
        Inl p \<Rightarrow> Inl p
      | Inr v1 \<Rightarrow>
          (case checkDashbase env v1 stmt of
             Inl p \<Rightarrow> Inl p
           | Inr v2 \<Rightarrow>
               (case checkAutoIncrement env v2 stmt of
                  Inl p \<Rightarrow> Inl p
                | Inr v3 \<Rightarrow> Inr (CreateTableStmt stmt, err v3 = None, v3))))"
  by (simp split: sum.split)

subsection \<open>The three checks of a CREATE TABLE node\<close>

lemma checkCreateTableGrammar_verdict:
  "checkCreateTableGrammar env v stmt = applyVerdict v (grammarVerdict env stmt)"
  by (simp add: checkCreateTableGrammar_def grammarVerdict_def applyVerdict_def newValidator_def
      split: flow.split)

lemma checkDashbase_verdict:
  "checkDashbase env v stmt = applyVerdict v (dashbaseVerdict env stmt)"
  by (simp add: checkDashbase_def dashbaseVerdict_def applyVerdict_def newValidator_def
      split: flow.split option.split)

lemma checkAutoIncrement_verdict:
  "checkAutoIncrement env v stmt = applyVerdict v (autoIncrementVerdict env stmt)"
  by (simp add: checkAutoIncrement_def autoIncrementVerdict_def applyVerdict_def newValidator_def
      Let_def split: flow.split option.split sum.split prod.split)

lemma Validate_CreateTableStmt:
  "Validate env (CreateTableStmt stmt) inPrep =
     (case grammarVerdict env stmt of
        Inl p \<Rightarrow> Inl p
      | Inr g \<Rightarrow>
          (case dashbaseVerdict env stmt of
             Inl p \<Rightarrow> Inl p
           | Inr d \<Rightarrow>
               (case autoIncrementVerdict env stmt of
                  Inl p \<Rightarrow> Inl p
                | Inr a \<Rightarrow> Inr (lastError g d a, CreateTableStmt stmt))))"
  by (simp add: Validate_def Accept_CreateTableStmt checkCreateTableGrammar_verdict
      checkDashbase_verdict checkAutoIncrement_verdict applyVerdict_def lastError_def
      newValidator_def
      split: sum.split option.split)

subsection \<open>Auto-increment and default values\<close>

lemma list_ex_nth: "list_ex P xs = (\<exists>j < length xs. P (xs ! j))"
  unfolding list_ex_iff by (metis in_set_conv_nth)

lemma conflictAt_Cons_0:
  "conflictAt (op # ops) 0 (Suc j) =
     (j < length ops \<and> ((isAutoIncrement op \<and> nonNullDefault (ops ! j))
                        \<or> (nonNullDefault op \<and> isAutoIncrement (ops ! j))))"
  by (auto simp: conflictAt_def)

lemma conflictAt_Cons_Suc: "conflictAt (op # ops) (Suc i) (Suc j) = conflictAt ops i j"
  by (simp add: conflictAt_def)

lemma conflictAt_0: "\<not> conflictAt ops i 0"
  by (simp add: conflictAt_def)

lemma conflict_iff: "conflict ops = (\<exists>i j. conflictAt ops i j)"
proof (induction ops)
  case Nil
  then show ?case by (simp add: conflictAt_def)
next
  case (Cons op ops)
  show ?case
  proof
    assume "conflict (op # ops)"
    then consider j where "j < length ops" "isAutoIncrement op" "nonNullDefault (ops ! j)"
      | j where "j < length ops" "nonNullDefault op" "isAutoIncrement (ops ! j)"
      | i j where "conflictAt ops i j"
      using Cons.IH by (auto simp: list_ex_nth)
    then show "\<exists>i j. conflictAt (op # ops) i j"
    proof cases
      case 1
      then have "conflictAt (op # ops) 0 (Suc j)" by (simp add: conflictAt_Cons_0)
      then show ?thesis by blast
    next
      case 2
      then have "conflictAt (op # ops) 0 (Suc j)" by (simp add: conflictAt_Cons_0)
      then show ?thesis by blast
    next
      case 3
      then have "conflictAt (op # ops) (Suc i) (Suc j)" by (simp add: conflictAt_Cons_Suc)
      then show ?thesis by blast
    qed
  next
    assume "\<exists>i j. conflictAt (op # ops) i j"
    then obtain i j where c: "conflictAt (op # ops) i j" by blast
    then obtain j' where j: "j = Suc j'"
      by (cases j) (simp_all add: conflictAt_0)
    show "conflict (op # ops)"
    proof (cases i)
      case 0
      with c j show ?thesis by (auto simp: conflictAt_Cons_0 list_ex_nth)
    next
      case (Suc i')
      with c j have "conflictAt ops i' j'" by (simp add: conflictAt_Cons_Suc)
      with Cons.IH show ?thesis by auto
    qed
  qed
qed

lemma checkAutoIncrementOp_default_eq:
  "wfOptions ops \<Longrightarrow> checkAutoIncrementOp_default ops = Inr (list_ex nonNullDefault ops)"
  by (induction ops) (auto simp: wfOptions_def nonNullDefault_def)

lemma wfOptions_drop: "wfOptions ops \<Longrightarrow> wfOptions (drop k ops)"
  by (auto simp: wfOptions_def list_all_iff dest: in_set_dropD)

lemma wfOptions_nth: "wfOptions ops \<Longrightarrow> i < length ops \<Longrightarrow>
   co_Tp (ops ! i) = ColumnOptionDefaultValue \<Longrightarrow> \<exists>d. co_Expr (ops ! i) = Some d"
  by (auto simp: wfOptions_def list_all_iff)

lemma checkAutoIncrementOp_eq:
  assumes "wfOptions (cd_Options c)" and "i < length (cd_Options c)"
  shows "checkAutoIncrementOp c i =
           Inr (isAutoIncrement (cd_Options c ! i),
                if (isAutoIncrement (cd_Options c ! i)
                      \<and> list_ex nonNullDefault (drop (Suc i) (cd_Options c)))
                   \<or> (nonNullDefault (cd_Options c ! i)
                      \<and> list_ex isAutoIncrement (drop (Suc i) (cd_Options c)))
                then Some (ErrInvalidDefaultValue (str_O (cn_Name (cd_Name c)))) else None)"
proof -
  note d = checkAutoIncrementOp_default_eq[OF wfOptions_drop[OF assms(1)], of "Suc i"]
  have last: "length (cd_Options c) = Suc i \<Longrightarrow> drop (Suc i) (cd_Options c) = []"
    by simp
  have ex: "\<And>P. list_ex P (drop (Suc i) (cd_Options c)) \<Longrightarrow> length (cd_Options c) \<noteq> Suc i"
    by auto
  show ?thesis
  proof (cases "co_Tp (cd_Options c ! i) = ColumnOptionDefaultValue")
    case True
    with wfOptions_nth[OF assms] obtain dd where e: "co_Expr (cd_Options c ! i) = Some dd" by blast
    from True have na: "\<not> isAutoIncrement (cd_Options c ! i)"
      by (simp add: isAutoIncrement_def)
    show ?thesis
    proof (cases "length (cd_Options c) = Suc i")
      case t: True
      with True e na assms(2) show ?thesis
        by (simp add: checkAutoIncrementOp_def isAutoIncrement_def Let_def)
    next
      case False
      with True e na assms(2) show ?thesis
        by (simp add: checkAutoIncrementOp_def isAutoIncrement_def nonNullDefault_def Let_def
            list_ex_iff)
    qed
  next
    case False
    then have nd: "\<not> nonNullDefault (cd_Options c ! i)"
      by (simp add: nonNullDefault_def)
    show ?thesis
    proof (cases "isAutoIncrement (cd_Options c ! i)")
      case True
      show ?thesis
      proof (cases "length (cd_Options c) = Suc i")
        case t: True
        with True assms(2) show ?thesis
          by (simp add: checkAutoIncrementOp_def isAutoIncrement_def Let_def)
      next
        case f: False
        with True False assms(2) d nd show ?thesis
          by (simp add: checkAutoIncrementOp_def isAutoIncrement_def Let_def split: bool.split)
      qed
    next
      case f: False
      with False assms(2) nd show ?thesis
        by (simp add: checkAutoIncrementOp_def isAutoIncrement_def Let_def)
    qed
  qed
qed

lemma checkAutoIncrement_options_eq:
  assumes "wfOptions (cd_Options c)"
  shows "ops = drop i (cd_Options c) \<Longrightarrow>
     checkAutoIncrement_options c i ops (has, isKey) =
       (if conflict ops then Return (ErrInvalidDefaultValue (str_O (cn_Name (cd_Name c))))
        else Next (has \<or> list_ex isAutoIncrement ops, isKey \<or> list_ex isKeyOption ops))"
proof (induction ops arbitrary: i has isKey)
  case Nil
  then show ?case by simp
next
  case (Cons op ops)
  from Cons.prems have i: "i < length (cd_Options c)"
    by (metis drop_eq_Nil list.distinct(1) not_le)
  from Cons.prems i have op: "cd_Options c ! i = op" and ops: "ops = drop (Suc i) (cd_Options c)"
    by (metis Cons_nth_drop_Suc list.inject)+
  note IH = Cons.IH[OF ops]
  have k: "(co_Tp op = ColumnOptionPrimaryKey \<or> co_Tp op = ColumnOptionUniqKey) = isKeyOption op"
    by (simp add: isKeyOption_def)
  show ?case
    by (simp add: checkAutoIncrementOp_eq[OF assms i] op ops[symmetric] IH k disj_assoc)
qed

lemma checkAutoIncrement_cols_eq:
  "list_all (\<lambda>c. wfOptions (cd_Options c)) cols \<Longrightarrow>
   checkAutoIncrement_cols cols (isKey, count, col) =
     (case find conflictColumn cols of
        Some c \<Rightarrow> Return (ErrInvalidDefaultValue (str_O (cn_Name (cd_Name c))))
      | None \<Rightarrow>
          Next (isKey \<or> list_ex hasKeyOption cols,
                count + int (length (autoIncrementCols cols)),
                if autoIncrementCols cols = [] then col else Some (last (autoIncrementCols cols))))"
proof (induction cols arbitrary: isKey count col)
  case Nil
  then show ?case by (simp add: autoIncrementCols_def)
next
  case (Cons c cols)
  from Cons.prems have w: "wfOptions (cd_Options c)" and ws: "list_all (\<lambda>c. wfOptions (cd_Options c)) cols"
    by simp_all
  note o = checkAutoIncrement_options_eq[OF w, of "cd_Options c" 0 False isKey, simplified]
  show ?case
    by (auto simp: o Cons.IH[OF ws] conflictColumn_def hasAutoIncrement_def hasKeyOption_def
        autoIncrementCols_def split: option.split)
qed

lemma autoIncrementVerdict_eq:
  assumes "wfDefaults stmt"
  shows "autoIncrementVerdict env stmt =
     (case find conflictColumn (ct_Cols stmt) of
        Some c \<Rightarrow> Inr (Some (ErrInvalidDefaultValue (str_O (cn_Name (cd_Name c)))))
      | None \<Rightarrow>
          if autoIncrementCols (ct_Cols stmt) = [] then Inr None
          else
            (let col = last (autoIncrementCols (ct_Cols stmt))
             in case (if \<not> list_ex hasKeyOption (ct_Cols stmt)
                      then isConstraintKeyTp (ct_Constraints stmt) col else Inr True) of
                  Inl p \<Rightarrow> Inl p
                | Inr isKey \<Rightarrow>
                    (case cd_Tp col of
                       None \<Rightarrow> Inl NilPointerDereference
                     | Some tp \<Rightarrow>
                         if \<not> autoIncrementTp (ft_Tp tp)
                         then Inr (Some (ErrIncorrectColumnSpecifier (str_O (cn_Name (cd_Name col)))))
                         else if (autoIncrementMustBeKey env stmt \<and> \<not> isKey)
                                 \<or> 1 < length (autoIncrementCols (ct_Cols stmt))
                         then Inr (Some ErrAutoIncrementKey)
                         else Inr None)))"
proof -
  from assms have w: "list_all (\<lambda>c. wfOptions (cd_Options c)) (ct_Cols stmt)"
    by (simp add: wfDefaults_def)
  have len: "autoIncrementCols (ct_Cols stmt) \<noteq> [] \<Longrightarrow>
      \<not> int (length (autoIncrementCols (ct_Cols stmt))) < 1"
    by (cases "autoIncrementCols (ct_Cols stmt)") simp_all
  show ?thesis
    unfolding autoIncrementVerdict_def checkAutoIncrement_def
      checkAutoIncrement_cols_eq[OF w] autoIncrementMustBeKey_def[symmetric]
    by (simp add: len Let_def newValidator_def split: option.split sum.split)
qed

subsection \<open>Which check stores which error, and when none panics\<close>

lemma checkDuplicateColumnName_class:
  "checkDuplicateColumnName ks = Some e \<Longrightarrow> \<exists>n. e = ErrColumnExists n"
  by (induction ks) (auto split: option.splits)

lemma checkFieldLengthLimitation_class:
  "checkFieldLengthLimitation env c = Inr (Some e) \<Longrightarrow> grammarError e \<and> e \<noteq> ErrMultiplePriKey"
  by (auto simp: checkFieldLengthLimitation_def Let_def split: option.splits if_splits)

lemma checkFieldLengthLimitation_returns:
  "charsetsOk env \<Longrightarrow> \<exists>r. checkFieldLengthLimitation env c = Inr r"
  by (auto simp: checkFieldLengthLimitation_def charsetsOk_def Let_def split: option.splits)

lemma checkCreateTableGrammar_cols_class:
  "checkCreateTableGrammar_cols env cols k = Return e \<Longrightarrow> grammarError e"
  by (induction cols arbitrary: k)
     (auto simp: Let_def split: sum.splits option.splits if_splits
       dest: checkFieldLengthLimitation_class)

lemma checkCreateTableGrammar_cols_returns:
  "charsetsOk env \<Longrightarrow> checkCreateTableGrammar_cols env cols k \<noteq> Panic p"
proof (induction cols arbitrary: k)
  case Nil
  then show ?case by simp
next
  case (Cons c cols)
  from checkFieldLengthLimitation_returns[OF Cons.prems, of c] obtain r
    where "checkFieldLengthLimitation env c = Inr r" by blast
  with Cons show ?case by (cases r) (simp_all add: Let_def)
qed

lemma checkCreateTableGrammar_constraints_class:
  "checkCreateTableGrammar_constraints cs k = Return e \<Longrightarrow> grammarError e"
  by (induction cs arbitrary: k)
     (auto split: option.splits if_splits dest: checkDuplicateColumnName_class)

lemma checkCreateTableGrammar_constraints_returns:
  "checkCreateTableGrammar_constraints cs k \<noteq> Panic p"
  by (induction cs arbitrary: k) (auto split: option.splits)

lemma grammarVerdict_class:
  "grammarVerdict env stmt = Inr (Some e) \<Longrightarrow> grammarError e"
  by (auto simp: grammarVerdict_def checkCreateTableGrammar_def newValidator_def
       split: if_splits flow.splits
       dest: checkCreateTableGrammar_cols_class checkCreateTableGrammar_constraints_class)

lemma grammarVerdict_returns:
  "charsetsOk env \<Longrightarrow> \<exists>g. grammarVerdict env stmt = Inr g"
  by (auto simp: grammarVerdict_def checkCreateTableGrammar_def
       checkCreateTableGrammar_cols_returns checkCreateTableGrammar_constraints_returns
       split: flow.split)

lemma checkDashbase_options_class:
  "checkDashbase_options c ops k = Return e \<Longrightarrow> dashbaseError e"
  by (induction ops arbitrary: k) (auto split: option.splits if_splits)

lemma checkDashbase_options_returns:
  "cd_Tp c \<noteq> None \<Longrightarrow> checkDashbase_options c ops k \<noteq> Panic p"
  by (induction ops arbitrary: k) (auto split: if_splits)

lemma checkDashbase_cols_class:
  "checkDashbase_cols cols k = Return e \<Longrightarrow> dashbaseError e"
  by (induction cols arbitrary: k)
     (auto split: flow.splits dest: checkDashbase_options_class)

lemma checkDashbase_cols_returns:
  "list_all (\<lambda>c. cd_Tp c \<noteq> None) cols \<Longrightarrow> checkDashbase_cols cols k \<noteq> Panic p"
  by (induction cols arbitrary: k)
     (auto split: flow.splits dest: checkDashbase_options_returns[THEN notE, rotated])

lemma checkDashbase_column_returns:
  "list_all (\<lambda>c. cd_Tp c \<noteq> None) cols \<Longrightarrow> checkDashbase_column cols key want e \<noteq> Panic p"
  by (induction cols) (auto split: if_splits)

lemma checkDashbase_constraints_class:
  "checkDashbase_constraints cols cs k = Return e \<Longrightarrow> dashbaseError e"
  by (induction cs arbitrary: k)
     (auto split: flow.splits if_splits dest: checkDashbase_column_exprError)

lemma checkDashbase_constraints_returns:
  "list_all (\<lambda>c. cd_Tp c \<noteq> None) cols \<Longrightarrow> checkDashbase_constraints cols cs k \<noteq> Panic p"
  by (induction cs arbitrary: k)
     (auto split: flow.splits simp: checkDashbase_column_returns)

lemma dashbaseVerdict_class:
  "dashbaseVerdict env stmt = Inr (Some e) \<Longrightarrow> dashbaseError e"
  by (auto simp: dashbaseVerdict_def checkDashbase_def newValidator_def
       split: if_splits flow.splits option.splits
       dest: checkDashbase_cols_class checkDashbase_constraints_class)

lemma dashbaseVerdict_returns:
  "typedColumns stmt \<Longrightarrow> \<exists>d. dashbaseVerdict env stmt = Inr d"
  by (auto simp: dashbaseVerdict_def checkDashbase_def typedColumns_def
       checkDashbase_cols_returns checkDashbase_constraints_returns
       split: flow.split option.split)





subsection \<open>Conflicting default values\<close>

lemma lastError_simps [simp]:
  "lastError g d (Some e) = Some e"
  "lastError g (Some e) None = Some e"
  "lastError g None None = g"
  by (simp_all add: lastError_def)

lemma conflict_find:
  "c \<in> set cols \<Longrightarrow> conflictAt (cd_Options c) i j \<Longrightarrow>
   \<exists>c'. find conflictColumn cols = Some c'"
  by (cases "find conflictColumn cols")
     (auto simp: find_None_iff conflictColumn_def conflict_iff)

lemma no_conflict_find:
  "\<forall>c\<in>set cols. \<forall>i j. \<not> conflictAt (cd_Options c) i j \<Longrightarrow> find conflictColumn cols = None"
  by (auto simp: find_None_iff conflictColumn_def conflict_iff)

lemma Validate_conflict:
  assumes "charsetsOk env" and "typedColumns stmt" and "wfDefaults stmt"
    and "c \<in> set (ct_Cols stmt)" and "conflictAt (cd_Options c) i j"
  shows "\<exists>name. Validate env (CreateTableStmt stmt) inPrep =
           Inr (Some (ErrInvalidDefaultValue name), CreateTableStmt stmt)"
proof -
  from grammarVerdict_returns[OF assms(1)] obtain g where g: "grammarVerdict env stmt = Inr g"
    by blast
  from dashbaseVerdict_returns[OF assms(2)] obtain d where d: "dashbaseVerdict env stmt = Inr d"
    by blast
  from conflict_find[OF assms(4,5)] obtain c' where "find conflictColumn (ct_Cols stmt) = Some c'"
    by blast
  then have "autoIncrementVerdict env stmt =
      Inr (Some (ErrInvalidDefaultValue (str_O (cn_Name (cd_Name c')))))"
    by (simp add: autoIncrementVerdict_eq[OF assms(3)])
  with g d show ?thesis
    by (simp add: Validate_CreateTableStmt)
qed

lemma Validate_no_conflict:
  assumes "wfDefaults stmt"
    and "\<forall>c\<in>set (ct_Cols stmt). \<forall>i j. \<not> conflictAt (cd_Options c) i j"
  shows "Validate env (CreateTableStmt stmt) inPrep \<noteq> Inr (Some (ErrInvalidDefaultValue name), n')"
proof
  assume V: "Validate env (CreateTableStmt stmt) inPrep = Inr (Some (ErrInvalidDefaultValue name), n')"
  then obtain g d a where g: "grammarVerdict env stmt = Inr g" and d: "dashbaseVerdict env stmt = Inr d"
    and a: "autoIncrementVerdict env stmt = Inr a"
    and l: "lastError g d a = Some (ErrInvalidDefaultValue name)"
    by (auto simp: Validate_CreateTableStmt split: sum.splits)
  from grammarVerdict_class[of env stmt] g have gc: "\<And>e. g = Some e \<Longrightarrow> grammarError e" by simp
  from dashbaseVerdict_class[of env stmt] d have dc: "\<And>e. d = Some e \<Longrightarrow> dashbaseError e" by simp
  from l gc dc have "a = Some (ErrInvalidDefaultValue name)"
    by (cases g; cases d; cases a) (auto simp: lastError_def)
  with a no_conflict_find[OF assms(2)] show False
    by (auto simp: autoIncrementVerdict_eq[OF assms(1)] Let_def split: if_splits sum.splits option.splits)
qed

text \<open>
  C3. Let every column of a CREATE TABLE statement have a type, every default-value
  option an expression, and no charset a zero width (so that no check panics). If in
  some column an auto-increment option stands at a position \<open>i\<close> and a default-value option
  with a non-null datum at a later position \<open>j\<close>, or the default at \<open>i\<close> and the
  auto-increment option at \<open>j\<close>, then \<open>Validate\<close> returns an "Invalid default value"
  error. If no column has such a pair (a null default never makes one), \<open>Validate\<close> does
  not return that error.
\<close>

theorem autoincrement_default_conflict:
  assumes "charsetsOk env" and "typedColumns stmt" and "wfDefaults stmt"
  shows "(c \<in> set (ct_Cols stmt) \<and> i < j \<and> j < length (cd_Options c)
            \<and> ((co_Tp (cd_Options c ! i) = ColumnOptionAutoIncrement
                  \<and> co_Tp (cd_Options c ! j) = ColumnOptionDefaultValue
                  \<and> co_Expr (cd_Options c ! j) \<noteq> Some KindNull)
               \<or> (co_Tp (cd_Options c ! i) = ColumnOptionDefaultValue
                  \<and> co_Expr (cd_Options c ! i) \<noteq> Some KindNull
                  \<and> co_Tp (cd_Options c ! j) = ColumnOptionAutoIncrement))
          \<longrightarrow> (\<exists>name. Validate env (CreateTableStmt stmt) inPrep =
                  Inr (Some (ErrInvalidDefaultValue name), CreateTableStmt stmt)))
       \<and> ((\<forall>c\<in>set (ct_Cols stmt). \<forall>i j. \<not> conflictAt (cd_Options c) i j)
          \<longrightarrow> (\<forall>name n'. Validate env (CreateTableStmt stmt) inPrep \<noteq>
                  Inr (Some (ErrInvalidDefaultValue name), n')))"
proof (intro conjI impI allI)
  assume "c \<in> set (ct_Cols stmt) \<and> i < j \<and> j < length (cd_Options c)
            \<and> ((co_Tp (cd_Options c ! i) = ColumnOptionAutoIncrement
                  \<and> co_Tp (cd_Options c ! j) = ColumnOptionDefaultValue
                  \<and> co_Expr (cd_Options c ! j) \<noteq> Some KindNull)
               \<or> (co_Tp (cd_Options c ! i) = ColumnOptionDefaultValue
                  \<and> co_Expr (cd_Options c ! i) \<noteq> Some KindNull
                  \<and> co_Tp (cd_Options c ! j) = ColumnOptionAutoIncrement))"
  then have "c \<in> set (ct_Cols stmt)" and "conflictAt (cd_Options c) i j"
    by (auto simp: conflictAt_def isAutoIncrement_def nonNullDefault_def)
  then show "\<exists>name. Validate env (CreateTableStmt stmt) inPrep =
                  Inr (Some (ErrInvalidDefaultValue name), CreateTableStmt stmt)"
    by (rule Validate_conflict[OF assms])
next
  fix name n'
  assume "\<forall>c\<in>set (ct_Cols stmt). \<forall>i j. \<not> conflictAt (cd_Options c) i j"
  then show "Validate env (CreateTableStmt stmt) inPrep \<noteq> Inr (Some (ErrInvalidDefaultValue name), n')"
    by (rule Validate_no_conflict[OF assms(3)])
qed

theorem autoincrement_default_conflict_witness:
  "charsetsOk exampleEnv
   \<and> typedColumns (mkTable ''t''
        [mkColumn ''a'' TypeLong [mkDefault (KindInt64 1), mkOption ColumnOptionAutoIncrement]] [] [])
   \<and> wfDefaults (mkTable ''t''
        [mkColumn ''a'' TypeLong [mkDefault (KindInt64 1), mkOption ColumnOptionAutoIncrement]] [] [])
   \<and> (\<exists>name. Validate exampleEnv (CreateTableStmt (mkTable ''t''
        [mkColumn ''a'' TypeLong [mkDefault (KindInt64 1), mkOption ColumnOptionAutoIncrement]] [] []))
        False =
      Inr (Some (ErrInvalidDefaultValue name), CreateTableStmt (mkTable ''t''
        [mkColumn ''a'' TypeLong [mkDefault (KindInt64 1), mkOption ColumnOptionAutoIncrement]] [] [])))"
proof -
  let ?c = "mkColumn ''a'' TypeLong [mkDefault (KindInt64 1), mkOption ColumnOptionAutoIncrement]"
  let ?s = "mkTable ''t'' [?c] [] []"
  have 1: "charsetsOk exampleEnv"
    by (simp add: charsetsOk_def exampleEnv_def)
  have 2: "typedColumns ?s"
    by (simp add: typedColumns_def mk_defs)
  have 3: "wfDefaults ?s"
    by (simp add: wfDefaults_def wfOptions_def mk_defs)
  have 4: "?c \<in> set (ct_Cols ?s) \<and> (0::nat) < 1 \<and> 1 < length (cd_Options ?c)
            \<and> ((co_Tp (cd_Options ?c ! 0) = ColumnOptionAutoIncrement
                  \<and> co_Tp (cd_Options ?c ! 1) = ColumnOptionDefaultValue
                  \<and> co_Expr (cd_Options ?c ! 1) \<noteq> Some KindNull)
               \<or> (co_Tp (cd_Options ?c ! 0) = ColumnOptionDefaultValue
                  \<and> co_Expr (cd_Options ?c ! 0) \<noteq> Some KindNull
                  \<and> co_Tp (cd_Options ?c ! 1) = ColumnOptionAutoIncrement))"
    by (simp add: mk_defs)
  from autoincrement_default_conflict [OF 1 2 3, of ?c 0 1 False] 4
  have "\<exists>name. Validate exampleEnv (CreateTableStmt ?s) False =
      Inr (Some (ErrInvalidDefaultValue name), CreateTableStmt ?s)"
    by blast
  with 1 2 3 show ?thesis by blast
qed

subsection \<open>The type of the auto-increment column and the scan of the constraints\<close>




lemma isConstraintKeyTp_panics:
  assumes "cs_Keys k = []"
    and "\<forall>p\<in>set pre. cs_Keys p \<noteq> []
           \<and> (str_L (cn_Name (ic_Column (hd (cs_Keys p)))) = str_L (cn_Name (cd_Name col))
                \<longrightarrow> \<not> keyConstraintTp (cs_Tp p))"
  shows "isConstraintKeyTp (pre @ k # post) col = Inl IndexOutOfRange"
  using assms(2)
proof (induction pre)
  case Nil
  with assms(1) show ?case by simp
next
  case (Cons p pre)
  then show ?case by (cases "cs_Keys p") auto
qed

lemma Validate_empty_keys:
  assumes "charsetsOk env" and "typedColumns stmt" and "wfDefaults stmt"
    and "find conflictColumn (ct_Cols stmt) = None"
    and "autoIncrementCols (ct_Cols stmt) \<noteq> []"
    and "\<not> list_ex hasKeyOption (ct_Cols stmt)"
    and "ct_Constraints stmt = pre @ k # post" and "cs_Keys k = []"
    and "\<forall>p\<in>set pre. cs_Keys p \<noteq> []
           \<and> (str_L (cn_Name (ic_Column (hd (cs_Keys p))))
                 = str_L (cn_Name (cd_Name (last (autoIncrementCols (ct_Cols stmt)))))
                \<longrightarrow> \<not> keyConstraintTp (cs_Tp p))"
  shows "Validate env (CreateTableStmt stmt) inPrep = Inl IndexOutOfRange"
proof -
  from grammarVerdict_returns[OF assms(1)] obtain g where g: "grammarVerdict env stmt = Inr g"
    by blast
  from dashbaseVerdict_returns[OF assms(2)] obtain d where d: "dashbaseVerdict env stmt = Inr d"
    by blast
  from isConstraintKeyTp_panics[OF assms(8,9), of post] assms(7)
  have "isConstraintKeyTp (ct_Constraints stmt) (last (autoIncrementCols (ct_Cols stmt))) =
      Inl IndexOutOfRange" by simp
  with assms(4,5,6) have "autoIncrementVerdict env stmt = Inl IndexOutOfRange"
    by (simp add: autoIncrementVerdict_eq[OF assms(3)] Let_def)
  with g d show ?thesis
    by (simp add: Validate_CreateTableStmt)
qed

subsection \<open>Counting primary keys\<close>





lemma primaryKeyConstraints_Cons:
  "primaryKeyConstraints (c # cs) =
     (if cs_Tp c = ConstraintPrimaryKey then 1 else 0) + primaryKeyConstraints cs"
  by (simp add: primaryKeyConstraints_def)







subsection \<open>The Dashbase check\<close>

lemma checkDashbase_options_eq:
  "\<not> list_ex isPrimaryOption ops \<or> columnHasType c TypeDatetime \<Longrightarrow>
   checkDashbase_options c ops k = Next (k + int (length (filter isPrimaryOption ops)))"
  by (induction ops arbitrary: k)
     (auto simp: isPrimaryOption_def columnHasType_def split: option.splits)

lemma checkDashbase_cols_eq:
  "list_all (\<lambda>c. \<not> list_ex isPrimaryOption (cd_Options c) \<or> columnHasType c TypeDatetime) cols \<Longrightarrow>
   checkDashbase_cols cols k = Next (k + primaryKeyOptions cols)"
proof (induction cols arbitrary: k)
  case Nil
  then show ?case by (simp add: primaryKeyOptions_def)
next
  case (Cons c cols)
  then have c: "\<not> list_ex isPrimaryOption (cd_Options c) \<or> columnHasType c TypeDatetime"
    and cs: "list_all (\<lambda>c. \<not> list_ex isPrimaryOption (cd_Options c) \<or> columnHasType c TypeDatetime) cols"
    by simp_all
  show ?case
    by (simp add: checkDashbase_options_eq[OF c] Cons.IH[OF cs] primaryKeyOptions_def)
qed

lemma checkDashbase_column_eq:
  "namedColumnHasType cols key want \<Longrightarrow> checkDashbase_column cols key want e = Next ()"
  by (induction cols)
     (auto simp: namedColumnHasType_def columnHasType_def split: option.splits)

lemma checkDashbase_constraints_eq:
  assumes "list_all (\<lambda>k. \<not> uniqueConstraintTp (cs_Tp k)) cs"
    and "list_all (\<lambda>k. cs_Tp k \<noteq> ConstraintPrimaryKey
                      \<or> (length (cs_Keys k) = 1 \<and> namedColumnHasType cols (keyName k) TypeDatetime)) cs"
    and "list_all (\<lambda>k. (cs_Tp k \<noteq> ConstraintKey \<and> cs_Tp k \<noteq> ConstraintIndex)
                      \<or> (length (cs_Keys k) = 1 \<and> namedColumnHasType cols (keyName k) TypeBlob)) cs"
  shows "checkDashbase_constraints cols cs n = Next (n + primaryKeyConstraints cs)"
  using assms
proof (induction cs arbitrary: n)
  case Nil
  then show ?case by (simp add: primaryKeyConstraints_def)
next
  case (Cons k cs)
  from Cons.prems have IH: "\<And>n. checkDashbase_constraints cols cs n = Next (n + primaryKeyConstraints cs)"
    by (intro Cons.IH) simp_all
  from Cons.prems show ?case
    by (auto simp: IH primaryKeyConstraints_Cons keyName_def checkDashbase_column_eq)
qed

lemma dashbaseVerdict_structure:
  assumes "isEngineDashbase env stmt"
    and "getStmtTableOption stmt TableOptionDashbaseConnection = Some opt"
    and "ParseConnectionOption env (to_StrValue opt)"
    and "dashbaseStructure stmt"
  shows "dashbaseVerdict env stmt =
     Inr (if primaryKeyOptions (ct_Cols stmt) + primaryKeyConstraints (ct_Constraints stmt) = 0
          then Some ErrDashbasePKRequired else None)"
proof -
  from assms(4) have
    c: "checkDashbase_cols (ct_Cols stmt) 0 = Next (primaryKeyOptions (ct_Cols stmt))"
    using checkDashbase_cols_eq[of "ct_Cols stmt" 0] by (simp add: dashbaseStructure_def)
  from assms(4) have
    k: "\<And>n. checkDashbase_constraints (ct_Cols stmt) (ct_Constraints stmt) n =
          Next (n + primaryKeyConstraints (ct_Constraints stmt))"
    by (intro checkDashbase_constraints_eq) (simp_all add: dashbaseStructure_def)
  from assms(1,2,3) show ?thesis
    by (simp add: dashbaseVerdict_def checkDashbase_def c k newValidator_def)
qed

lemma dashbaseVerdict_no_connection:
  "isEngineDashbase env stmt \<Longrightarrow>
   getStmtTableOption stmt TableOptionDashbaseConnection = None \<Longrightarrow>
   dashbaseVerdict env stmt = Inr (Some ErrDashbaseConnRequired)"
  by (simp add: dashbaseVerdict_def checkDashbase_def newValidator_def)

lemma dashbaseVerdict_bad_connection:
  "isEngineDashbase env stmt \<Longrightarrow>
   getStmtTableOption stmt TableOptionDashbaseConnection = Some opt \<Longrightarrow>
   \<not> ParseConnectionOption env (to_StrValue opt) \<Longrightarrow>
   dashbaseVerdict env stmt = Inr (Some ErrDashbaseConnInvalid)"
  by (simp add: dashbaseVerdict_def checkDashbase_def newValidator_def)

lemma dashbaseVerdict_other_engine:
  "\<not> isEngineDashbase env stmt \<Longrightarrow> dashbaseVerdict env stmt = Inr None"
  by (simp add: dashbaseVerdict_def checkDashbase_def newValidator_def)


lemmas notion_defs =
  grammarVerdict_def dashbaseVerdict_def autoIncrementVerdict_def charsetsOk_def typedColumns_def
  wfDefaults_def wfOptions_def keysNonEmpty_def dashbaseStructure_def primaryKeyOptions_def
  primaryKeyColumns_def primaryKeyConstraints_def isPrimaryOption_def columnHasType_def
  namedColumnHasType_def keyName_def hasAutoIncrement_def hasKeyOption_def isAutoIncrement_def
  isKeyOption_def conflictColumn_def autoIncrementCols_def nonNullDefault_def mkTableOption_def

text \<open>
  C4, as amended. For a CREATE TABLE statement whose engine option is Dashbase, when the
  auto-increment check, which runs after the Dashbase check, stores no error: without a
  DASHBASE_CONN option \<open>Validate\<close> returns "DASHBASE_CONN option is required"; with one
  that does not parse, "DASHBASE_CONN is not valid"; with one that parses, columns and
  constraints as \<open>dashbaseStructure\<close> asks, at least one primary key and no error of the
  entry-time grammar check, \<open>Validate\<close> succeeds; with one that parses, the same
  structure and no primary key, \<open>Validate\<close> returns the missing-primary-key error.
\<close>

theorem dashbase_table:
  assumes "isEngineDashbase env stmt" and "charsetsOk env"
    and "autoIncrementVerdict env stmt = Inr None"
  shows
    "(getStmtTableOption stmt TableOptionDashbaseConnection = None \<longrightarrow>
        Validate env (CreateTableStmt stmt) inPrep =
          Inr (Some ErrDashbaseConnRequired, CreateTableStmt stmt))
     \<and> (getStmtTableOption stmt TableOptionDashbaseConnection = Some opt
          \<and> \<not> ParseConnectionOption env (to_StrValue opt) \<longrightarrow>
        Validate env (CreateTableStmt stmt) inPrep =
          Inr (Some ErrDashbaseConnInvalid, CreateTableStmt stmt))
     \<and> (getStmtTableOption stmt TableOptionDashbaseConnection = Some opt
          \<and> ParseConnectionOption env (to_StrValue opt) \<and> dashbaseStructure stmt
          \<and> 0 < primaryKeyOptions (ct_Cols stmt) + primaryKeyConstraints (ct_Constraints stmt)
          \<and> grammarVerdict env stmt = Inr None \<longrightarrow>
        Validate env (CreateTableStmt stmt) inPrep = Inr (None, CreateTableStmt stmt))
     \<and> (getStmtTableOption stmt TableOptionDashbaseConnection = Some opt
          \<and> ParseConnectionOption env (to_StrValue opt) \<and> dashbaseStructure stmt
          \<and> primaryKeyOptions (ct_Cols stmt) + primaryKeyConstraints (ct_Constraints stmt) = 0 \<longrightarrow>
        Validate env (CreateTableStmt stmt) inPrep =
          Inr (Some ErrDashbasePKRequired, CreateTableStmt stmt))"
proof -
  from grammarVerdict_returns[OF assms(2)] obtain g where g: "grammarVerdict env stmt = Inr g"
    by blast
  show ?thesis
  proof (intro conjI impI)
    assume "getStmtTableOption stmt TableOptionDashbaseConnection = None"
    from dashbaseVerdict_no_connection[OF assms(1) this] g assms(3)
    show "Validate env (CreateTableStmt stmt) inPrep =
          Inr (Some ErrDashbaseConnRequired, CreateTableStmt stmt)"
      by (simp add: Validate_CreateTableStmt)
  next
    assume "getStmtTableOption stmt TableOptionDashbaseConnection = Some opt
          \<and> \<not> ParseConnectionOption env (to_StrValue opt)"
    then have "dashbaseVerdict env stmt = Inr (Some ErrDashbaseConnInvalid)"
      by (auto intro: dashbaseVerdict_bad_connection[OF assms(1)])
    with g assms(3)
    show "Validate env (CreateTableStmt stmt) inPrep =
          Inr (Some ErrDashbaseConnInvalid, CreateTableStmt stmt)"
      by (simp add: Validate_CreateTableStmt)
  next
    assume a: "getStmtTableOption stmt TableOptionDashbaseConnection = Some opt
          \<and> ParseConnectionOption env (to_StrValue opt) \<and> dashbaseStructure stmt
          \<and> 0 < primaryKeyOptions (ct_Cols stmt) + primaryKeyConstraints (ct_Constraints stmt)
          \<and> grammarVerdict env stmt = Inr None"
    then have "dashbaseVerdict env stmt = Inr None"
      using dashbaseVerdict_structure[OF assms(1), of opt] by auto
    with a assms(3)
    show "Validate env (CreateTableStmt stmt) inPrep = Inr (None, CreateTableStmt stmt)"
      by (simp add: Validate_CreateTableStmt)
  next
    assume a: "getStmtTableOption stmt TableOptionDashbaseConnection = Some opt
          \<and> ParseConnectionOption env (to_StrValue opt) \<and> dashbaseStructure stmt
          \<and> primaryKeyOptions (ct_Cols stmt) + primaryKeyConstraints (ct_Constraints stmt) = 0"
    then have "dashbaseVerdict env stmt = Inr (Some ErrDashbasePKRequired)"
      using dashbaseVerdict_structure[OF assms(1), of opt] by auto
    with g assms(3)
    show "Validate env (CreateTableStmt stmt) inPrep =
          Inr (Some ErrDashbasePKRequired, CreateTableStmt stmt)"
      by (simp add: Validate_CreateTableStmt)
  qed
qed

theorem dashbase_table_witness:
  "isEngineDashbase exampleEnv dashbaseExample \<and> charsetsOk exampleEnv
   \<and> autoIncrementVerdict exampleEnv dashbaseExample = Inr None
   \<and> dashbaseStructure dashbaseExample
   \<and> grammarVerdict exampleEnv dashbaseExample = Inr None
   \<and> Validate exampleEnv (CreateTableStmt dashbaseExample) False =
       Inr (None, CreateTableStmt dashbaseExample)"
proof -
  let ?opt = "mkTableOption TableOptionDashbaseConnection ''host:9876''"
  have 1: "isEngineDashbase exampleEnv dashbaseExample"
    by (simp add: dashbaseExample_def checker_defs mk_defs notion_defs)
  have 2: "charsetsOk exampleEnv"
    by (simp add: charsetsOk_def exampleEnv_def)
  have 3: "autoIncrementVerdict exampleEnv dashbaseExample = Inr None"
    by (simp add: dashbaseExample_def checker_defs mk_defs notion_defs)
  have 4: "getStmtTableOption dashbaseExample TableOptionDashbaseConnection = Some ?opt
          \<and> ParseConnectionOption exampleEnv (to_StrValue ?opt) \<and> dashbaseStructure dashbaseExample
          \<and> 0 < primaryKeyOptions (ct_Cols dashbaseExample)
                 + primaryKeyConstraints (ct_Constraints dashbaseExample)
          \<and> grammarVerdict exampleEnv dashbaseExample = Inr None"
    by (simp add: dashbaseExample_def checker_defs mk_defs notion_defs)
  from dashbase_table [OF 1 2 3, where opt = ?opt and inPrep = False] 4
  have "Validate exampleEnv (CreateTableStmt dashbaseExample) False =
       Inr (None, CreateTableStmt dashbaseExample)"
    by blast
  with 1 2 3 4 show ?thesis by blast
qed

theorem dashbase_table_counterexample:
  "isEngineDashbase exampleEnv
     (mkTable ''t'' [mkColumn ''a'' TypeLong [mkOption ColumnOptionAutoIncrement]] []
        [mkTableOption TableOptionEngine ''Dashbase''])
   \<and> getStmtTableOption
       (mkTable ''t'' [mkColumn ''a'' TypeLong [mkOption ColumnOptionAutoIncrement]] []
          [mkTableOption TableOptionEngine ''Dashbase''])
       TableOptionDashbaseConnection = None
   \<and> Validate exampleEnv
       (CreateTableStmt
         (mkTable ''t'' [mkColumn ''a'' TypeLong [mkOption ColumnOptionAutoIncrement]] []
            [mkTableOption TableOptionEngine ''Dashbase''])) False =
     Inr (Some ErrAutoIncrementKey,
          CreateTableStmt
            (mkTable ''t'' [mkColumn ''a'' TypeLong [mkOption ColumnOptionAutoIncrement]] []
               [mkTableOption TableOptionEngine ''Dashbase'']))"
  by (simp add: checker_defs mk_defs notion_defs)








text \<open>
  C10, as amended. Let a CREATE TABLE statement have an auto-increment column, no
  auto-increment/default conflict, and no column at all with a primary-key or unique
  option. If a constraint has an empty key list and every constraint before it has a key
  and does not make the last auto-increment column a key, then \<open>isConstraintKeyTp\<close> reads
  \<^verbatim>\<open>c.Keys[0]\<close> of the empty list and panics with index out of range, and so does
  \<open>Validate\<close>.
\<close>

theorem empty_key_list_panics:
  assumes "charsetsOk env" and "typedColumns stmt" and "wfDefaults stmt"
    and "find conflictColumn (ct_Cols stmt) = None"
    and "autoIncrementCols (ct_Cols stmt) \<noteq> []"
    and "\<not> list_ex hasKeyOption (ct_Cols stmt)"
    and "ct_Constraints stmt = pre @ k # post" and "cs_Keys k = []"
    and "\<forall>p\<in>set pre. cs_Keys p \<noteq> []
           \<and> (str_L (cn_Name (ic_Column (hd (cs_Keys p))))
                 = str_L (cn_Name (cd_Name (last (autoIncrementCols (ct_Cols stmt)))))
                \<longrightarrow> \<not> keyConstraintTp (cs_Tp p))"
  shows "isConstraintKeyTp (ct_Constraints stmt) (last (autoIncrementCols (ct_Cols stmt))) =
           Inl IndexOutOfRange
         \<and> Validate env (CreateTableStmt stmt) inPrep = Inl IndexOutOfRange"
proof
  from isConstraintKeyTp_panics[OF assms(8,9), of post] assms(7)
  show "isConstraintKeyTp (ct_Constraints stmt) (last (autoIncrementCols (ct_Cols stmt))) =
      Inl IndexOutOfRange" by simp
  from assms show "Validate env (CreateTableStmt stmt) inPrep = Inl IndexOutOfRange"
    by (rule Validate_empty_keys)
qed

theorem empty_key_list_panics_witness:
  "charsetsOk exampleEnv \<and> typedColumns emptyKeysExample \<and> wfDefaults emptyKeysExample
   \<and> autoIncrementCols (ct_Cols emptyKeysExample) \<noteq> []
   \<and> \<not> list_ex hasKeyOption (ct_Cols emptyKeysExample)
   \<and> Validate exampleEnv (CreateTableStmt emptyKeysExample) False = Inl IndexOutOfRange"
proof -
  have 1: "charsetsOk exampleEnv"
    by (simp add: charsetsOk_def exampleEnv_def)
  have 2: "typedColumns emptyKeysExample" and 3: "wfDefaults emptyKeysExample"
    and 4: "find conflictColumn (ct_Cols emptyKeysExample) = None"
    and 5: "autoIncrementCols (ct_Cols emptyKeysExample) \<noteq> []"
    and 6: "\<not> list_ex hasKeyOption (ct_Cols emptyKeysExample)"
    by (simp_all add: emptyKeysExample_def mk_defs notion_defs)
  have 7: "ct_Constraints emptyKeysExample =
      [mkConstraint ConstraintForeignKey [''a'']] @ mkConstraint ConstraintKey [] # []"
    and 8: "cs_Keys (mkConstraint ConstraintKey []) = []"
    by (simp_all add: emptyKeysExample_def mk_defs)
  have 9: "\<forall>p\<in>set [mkConstraint ConstraintForeignKey [''a'']]. cs_Keys p \<noteq> []
           \<and> (str_L (cn_Name (ic_Column (hd (cs_Keys p))))
                 = str_L (cn_Name (cd_Name (last (autoIncrementCols (ct_Cols emptyKeysExample)))))
                \<longrightarrow> \<not> keyConstraintTp (cs_Tp p))"
    by (simp add: emptyKeysExample_def mk_defs notion_defs keyConstraintTp_def)
  from empty_key_list_panics [OF 1 2 3 4 5 6 7 8 9, of False]
  have "Validate exampleEnv (CreateTableStmt emptyKeysExample) False = Inl IndexOutOfRange"
    by simp
  with 1 2 3 5 6 show ?thesis by simp
qed

theorem empty_key_list_panics_counterexample:
  "hasAutoIncrement (mkColumn ''a'' TypeLong [mkOption ColumnOptionAutoIncrement])
   \<and> \<not> hasKeyOption (mkColumn ''a'' TypeLong [mkOption ColumnOptionAutoIncrement])
   \<and> cs_Keys (mkConstraint ConstraintKey []) = []
   \<and> Validate exampleEnv
       (CreateTableStmt
         (mkTable ''t'' [mkColumn ''a'' TypeLong [mkOption ColumnOptionAutoIncrement]]
            [mkConstraint ConstraintPrimaryKey [''a''], mkConstraint ConstraintKey []] []))
       False =
     Inr (None,
          CreateTableStmt
            (mkTable ''t'' [mkColumn ''a'' TypeLong [mkOption ColumnOptionAutoIncrement]]
               [mkConstraint ConstraintPrimaryKey [''a''], mkConstraint ConstraintKey []] []))
   \<and> Validate exampleEnv
       (CreateTableStmt
         (mkTable ''t''
            [mkColumn ''a'' TypeLong [mkOption ColumnOptionAutoIncrement],
             mkColumn ''b'' TypeLong [mkOption ColumnOptionUniqKey]]
            [mkConstraint ConstraintKey []] []))
       False =
     Inr (None,
          CreateTableStmt
            (mkTable ''t''
               [mkColumn ''a'' TypeLong [mkOption ColumnOptionAutoIncrement],
                mkColumn ''b'' TypeLong [mkOption ColumnOptionUniqKey]]
               [mkConstraint ConstraintKey []] []))"
  by (simp add: checker_defs mk_defs notion_defs)

subsection \<open>The first error in traversal order\<close>












subsection \<open>Every Limit node is clamped\<close>

lemma of_nat_MaxUint64_minus: "of_nat (2 ^ 64 - 1 - unat off) = MaxUint64 - (off :: 64 word)"
proof -
  have "of_nat (unat (MaxUint64 - off)) = MaxUint64 - off"
    by simp
  then show ?thesis
    by (simp add: unat_MaxUint64_minus)
qed

lemma Leave_clampLimit:
  "Leave env v (Limit Count Offset) = Inr (clampLimit (Limit Count Offset), err v = None, v)"
  by (cases Count)
     (simp_all add: Let_def offsetValue_def[symmetric] clamp_condition
        of_nat_MaxUint64_minus[simplified])

lemma Leave_node: "Leave env v m = Inr (n', ok, v') \<Longrightarrow> n' = clampLimit m"
proof (cases "\<exists>Count Offset. m = Limit Count Offset")
  case True
  assume "Leave env v m = Inr (n', ok, v')"
  with True show ?thesis by (auto simp: Leave_clampLimit simp del: Leave.simps clampLimit.simps)
next
  case False
  assume L: "Leave env v m = Inr (n', ok, v')"
  with False have "n' = m" by (auto dest: Leave_same_node)
  moreover from False have "clampLimit m = m" by (cases m) auto
  ultimately show ?thesis by simp
qed

lemma clampAll_generic: "clampAll n = clampLimit (withChildren n (map clampAll (children n)))"
proof (cases n)
  case (Limit Count Offset)
  then show ?thesis by (cases Count; cases Offset) simp_all
qed simp_all

lemma AcceptList_clamp_step:
  assumes IH: "\<And>c v c' v'. c \<in> set cs \<Longrightarrow> Accept env v c = Inr (c', True, v')
                  \<Longrightarrow> c' = clampAll c"
  shows "AcceptList env v cs = Inr (cs', True, v') \<Longrightarrow> cs' = map clampAll cs"
  using IH
proof (induction cs arbitrary: v cs' v')
  case Nil
  then show ?case by simp
next
  case (Cons c cs)
  from Cons.prems(1) obtain c1 ok1 v1 where A: "Accept env v c = Inr (c1, ok1, v1)"
    by (auto split: sum.splits)
  with Cons.prems(1) have ok1: "ok1" by (auto split: sum.splits if_splits)
  with A Cons.prems(2) have c1: "c1 = clampAll c" by simp
  from Cons.prems(1) A ok1 obtain cs1 where L: "AcceptList env v1 cs = Inr (cs1, True, v')"
    and cs': "cs' = c1 # cs1"
    by (auto split: sum.splits)
  have "cs1 = map clampAll cs"
    by (rule Cons.IH[OF L]) (rule Cons.prems(2), simp_all)
  with c1 cs' show ?case by simp
qed

lemma Accept_clamp:
  "Accept env v n = Inr (n', True, v') \<Longrightarrow> n' = clampAll n"
proof (induction n arbitrary: v n' v' rule: measure_induct_rule[where f = size])
  case (less n)
  from less.prems obtain skip v1 where E: "Enter env v n = Inr (skip, v1)"
    by (subst (asm) Accept_generic) (auto split: sum.splits)
  show ?case
  proof (cases skip)
    case True
    with less.prems E have L: "Leave env v1 n = Inr (n', True, v')"
      by (subst (asm) Accept_generic) simp
    from E True L have "children n = []"
      by (cases n) (auto split: if_splits)
    with withChildren_children[of n] have "withChildren n [] = n" by simp
    with Leave_node[OF L] \<open>children n = []\<close> show ?thesis
      by (simp add: clampAll_generic[of n])
  next
    case False
    with E have E': "Enter env v n = Inr (False, v1)" by simp
    from less.prems E' obtain cs' ok1 v2 where A: "AcceptList env v1 (children n) = Inr (cs', ok1, v2)"
      by (subst (asm) Accept_generic) (auto split: sum.splits)
    with less.prems E' have ok1: "ok1"
      by (subst (asm) Accept_generic) (auto split: if_splits)
    with less.prems E' A have L: "Leave env v2 (withChildren n cs') = Inr (n', True, v')"
      by (subst (asm) Accept_generic) simp
    have "cs' = map clampAll (children n)"
      by (rule AcceptList_clamp_step[OF _ A[unfolded eqTrueI[OF ok1]]]) (rule less.IH[OF children_size])
    with Leave_node[OF L] show ?thesis
      by (simp add: clampAll_generic[of n])
  qed
qed

lemma Validate_clamp:
  assumes "Validate env n p = Inr (None, n')"
  shows "n' = clampAll n"
proof -
  from assms obtain ok v' where A: "Accept env (newValidator p) n = Inr (n', ok, v')"
    and e: "err v' = None"
    by (auto simp: Validate_def split: sum.splits)
  have "inv_result (newValidator p) ok v'"
    by (rule Accept_invariant[OF _ A]) (simp add: newValidator_def)
  with e have "ok" by (simp add: inv_result_def)
  with A show ?thesis by (auto dest: Accept_clamp)
qed

text \<open>
  C6, as amended. At every \<^verbatim>\<open>Limit\<close> node whose count holds a uint64 and is no parameter
  marker, whatever the validator and whether or not the node has an offset, \<^verbatim>\<open>Leave\<close>
  leaves the validator (and so the error slot) as it is and rewrites the count to
  \<open>2^64 - 1 - offset\<close> exactly when the count is greater than that, the offset being zero
  when it is absent or holds no uint64. When \<open>Validate\<close> returns no error, every \<^verbatim>\<open>Limit\<close>
  node of the tree has been clamped so. With count 18446744073709551615 and offset 10
  the count becomes 18446744073709551605; with count 100 and offset 10 it stays 100; with
  count 5 and no offset it stays 5. (A \<^verbatim>\<open>Limit\<close> node the visit does not reach, because an
  earlier node has failed, keeps its count.)
\<close>

theorem Limit_clamp:
  "(\<not> isParamMarker c \<and> GetDatum c = KindUint64 x \<longrightarrow>
      (\<exists>c'. Leave env v (Limit (Some c) Offset) = Inr (Limit (Some c') Offset, err v = None, v)
          \<and> unat (GetUint64 c') =
              (if 2 ^ 64 - 1 - unat (offsetValue Offset) < unat x
               then 2 ^ 64 - 1 - unat (offsetValue Offset) else unat x)
          \<and> (c' = c) = (unat x \<le> 2 ^ 64 - 1 - unat (offsetValue Offset))))
   \<and> (Validate env n p = Inr (None, n') \<longrightarrow> n' = clampAll n)
   \<and> Validate env (Limit (Some (ValueExpr (KindUint64 18446744073709551615)))
       (Some (ValueExpr (KindUint64 10)))) p =
     Inr (None, Limit (Some (ValueExpr (KindUint64 18446744073709551605)))
       (Some (ValueExpr (KindUint64 10))))
   \<and> Validate env (Limit (Some (ValueExpr (KindUint64 100)))
       (Some (ValueExpr (KindUint64 10)))) p =
     Inr (None, Limit (Some (ValueExpr (KindUint64 100))) (Some (ValueExpr (KindUint64 10))))
   \<and> Validate env (Limit (Some (ValueExpr (KindUint64 5))) None) p =
     Inr (None, Limit (Some (ValueExpr (KindUint64 5))) None)"
proof (intro conjI impI)
  assume h: "\<not> isParamMarker c \<and> GetDatum c = KindUint64 x"
  let ?m = "2 ^ 64 - 1 - unat (offsetValue Offset)"
  let ?c' = "if ?m < unat x then SetValue c (MaxUint64 - offsetValue Offset) else c"
  from h have x: "GetUint64 c = x" by (simp add: GetUint64_def)
  have L: "Leave env v (Limit (Some c) Offset) = Inr (Limit (Some ?c') Offset, err v = None, v)"
    using h x by (simp add: Let_def offsetValue_def[symmetric] clamp_condition)
  from h have S: "GetDatum (SetValue c y) = KindUint64 y" for y
    by (cases c) auto
  have G: "unat (GetUint64 ?c') = (if ?m < unat x then ?m else unat x)"
    using x S by (simp add: GetUint64_def unat_MaxUint64_minus)
  have "?m < unat x \<Longrightarrow> SetValue c (MaxUint64 - offsetValue Offset) \<noteq> c"
  proof
    assume lt: "?m < unat x" and eq: "SetValue c (MaxUint64 - offsetValue Offset) = c"
    from S[of "MaxUint64 - offsetValue Offset"] eq h have "MaxUint64 - offsetValue Offset = x"
      by simp
    then have "unat x = unat (MaxUint64 - offsetValue Offset)" by simp
    also have "\<dots> = ?m" by (rule unat_MaxUint64_minus)
    finally show False using lt by simp
  qed
  then have N: "(?c' = c) = (unat x \<le> ?m)" by auto
  from L G N show "\<exists>c'. Leave env v (Limit (Some c) Offset) =
           Inr (Limit (Some c') Offset, err v = None, v)
          \<and> unat (GetUint64 c') = (if ?m < unat x then ?m else unat x)
          \<and> (c' = c) = (unat x \<le> ?m)"
    by blast
next
  assume "Validate env n p = Inr (None, n')"
  then show "n' = clampAll n" by (rule Validate_clamp)
next
  show "Validate env (Limit (Some (ValueExpr (KindUint64 18446744073709551615)))
       (Some (ValueExpr (KindUint64 10)))) p =
     Inr (None, Limit (Some (ValueExpr (KindUint64 18446744073709551605)))
       (Some (ValueExpr (KindUint64 10))))"
    by (simp add: Validate_Limit_values MaxUint64_def)
  show "Validate env (Limit (Some (ValueExpr (KindUint64 100)))
       (Some (ValueExpr (KindUint64 10)))) p =
     Inr (None, Limit (Some (ValueExpr (KindUint64 100))) (Some (ValueExpr (KindUint64 10))))"
    by (simp add: Validate_Limit_values MaxUint64_def)
  show "Validate env (Limit (Some (ValueExpr (KindUint64 5))) None) p =
     Inr (None, Limit (Some (ValueExpr (KindUint64 5))) None)"
    by (simp add: Validate_def newValidator_def GetUint64_def MaxUint64_def)
qed

theorem Limit_clamp_witness:
  "(\<exists>c'. Leave exampleEnv (newValidator False)
         (Limit (Some (ValueExpr (KindUint64 18446744073709551615)))
            (Some (ValueExpr (KindUint64 10)))) =
         Inr (Limit (Some c') (Some (ValueExpr (KindUint64 10))), True, newValidator False)
       \<and> unat (GetUint64 c') = 18446744073709551605)
   \<and> OtherNode [Limit (Some (ValueExpr (KindUint64 18446744073709551605)))
                  (Some (ValueExpr (KindUint64 10))), ParamMarkerExpr KindNull] =
     clampAll (OtherNode [Limit (Some (ValueExpr (KindUint64 18446744073709551615)))
                            (Some (ValueExpr (KindUint64 10))), ParamMarkerExpr KindNull])"
proof -
  let ?c = "ValueExpr (KindUint64 18446744073709551615)"
  let ?off = "Some (ValueExpr (KindUint64 10))"
  let ?n = "OtherNode [Limit (Some ?c) ?off, ParamMarkerExpr KindNull]"
  let ?n' = "OtherNode [Limit (Some (ValueExpr (KindUint64 18446744073709551605))) ?off,
                        ParamMarkerExpr KindNull]"
  have a: "\<not> isParamMarker ?c \<and> GetDatum ?c = KindUint64 18446744073709551615"
    by simp
  have b: "Validate exampleEnv ?n True = Inr (None, ?n')"
    by (simp add: Validate_def newValidator_def GetUint64_def MaxUint64_def)
  have c: "unat (offsetValue ?off) = 10" "err (newValidator False) = None"
    by (simp_all add: offsetValue_def GetUint64_def newValidator_def)
  from Limit_clamp [where c = ?c and x = 18446744073709551615 and env = exampleEnv
      and v = "newValidator False" and Offset = ?off and n = ?n and p = True and n' = ?n']
    a b c
  show ?thesis by (simp add: Let_def GetUint64_def MaxUint64_def)
qed

theorem Limit_clamp_counterexample:
  "Validate exampleEnv
     (OtherNode [ParamMarkerExpr KindNull,
                 Limit (Some (ValueExpr (KindUint64 18446744073709551615)))
                   (Some (ValueExpr (KindUint64 10)))]) False =
     Inr (Some (ErrSyntax unexpectedParamMarker),
          OtherNode [ParamMarkerExpr KindNull,
                     Limit (Some (ValueExpr (KindUint64 18446744073709551615)))
                       (Some (ValueExpr (KindUint64 10)))])"
  by (simp add: Validate_def newValidator_def)

end
